theory Spec2Isabelle
  imports Complex_Main "HOL-Library.Multiset"
begin

section \<open>Data model (pkg/types)\<close>

text \<open>
  Go's \<open>float64\<close> is modelled by \<open>real\<close>: the arithmetic of the source is read as exact
  arithmetic, so rounding, infinities and NaN are outside the model. A \<open>time.Time\<close> is
  an \<open>int\<close> counting nanoseconds, a \<open>time.Duration\<close> is an \<open>int\<close> of nanoseconds.
  Block heights are \<open>int64\<close> in the source and \<open>int\<close> here: the model covers the
  heights for which the loop counter of the source does not wrap.
\<close>

type_synonym Time = int
type_synonym Duration = int

record Range =
  Lower :: real
  Upper :: real
  Typical :: real

record BlockInfo =
  Height :: int
  Time :: Time
  Hash :: string
  Proposer :: string
  TxCount :: nat
  BlockTime :: real

record BlockTimeStats =
  SampleSize :: int
  StartHeight :: int
  EndHeight :: int
  StartTime :: Time
  EndTime :: Time
  Mean :: real
  Median :: real
  StdDev :: real
  MinV :: real
  MaxV :: real
  P25 :: real
  P75 :: real
  P95 :: real
  P99 :: real
  OutlierCount :: int
  EstimatedRange :: Range
  ConfidenceLevel :: real

record CalculatorConfig =
  SampleSize :: int
  OutlierThreshold :: real
  ConfidenceLevel :: real
  MinSampleSize :: int
  TrimPercent :: real
  UseMedianAbsolute :: bool

text \<open>The zero values \<open>types.Range{}\<close> and \<open>types.BlockTimeStats{}\<close>.\<close>

definition zeroRange :: Range where
  "zeroRange = \<lparr>Lower = 0, Upper = 0, Typical = 0\<rparr>"

definition zeroStats :: BlockTimeStats where
  "zeroStats =
     \<lparr>BlockTimeStats.SampleSize = 0, StartHeight = 0, EndHeight = 0, StartTime = 0,
      EndTime = 0, Mean = 0, Median = 0, StdDev = 0, MinV = 0, MaxV = 0, P25 = 0,
      P75 = 0, P95 = 0, P99 = 0, OutlierCount = 0, EstimatedRange = zeroRange,
      BlockTimeStats.ConfidenceLevel = 0\<rparr>"

section \<open>Robust statistics (internal/calculator/calculator.go)\<close>

text \<open>\<open>DefaultConfig\<close>.\<close>

definition DefaultConfig :: CalculatorConfig where
  "DefaultConfig =
     \<lparr>SampleSize = 100, OutlierThreshold = 3 / 2, ConfidenceLevel = 95 / 100,
      MinSampleSize = 30, TrimPercent = 5 / 100, UseMedianAbsolute = True\<rparr>"

text \<open>The conversion \<open>int(x)\<close> of a float: truncation toward zero.\<close>

definition go_int :: "real \<Rightarrow> int" where
  "go_int x = (if 0 \<le> x then \<lfloor>x\<rfloor> else \<lceil>x\<rceil>)"

text \<open>
  \<open>percentile\<close>: linear interpolation at the continuous rank \<open>p * (n - 1)\<close>. For
  \<open>0 < p < 1\<close> both indices lie in the slice, so no index is out of range. In
  \<open>float64\<close> the weight and the two products are rounded: at \<open>p = 0.5\<close> they are
  exact, at other fractions the value of the source can differ from the value here by a
  unit in the last place, also when the two neighbours are equal. So nothing below uses
  \<open>percentile\<close> to compare two percentiles of one series.
\<close>

definition percentile :: "real list \<Rightarrow> real \<Rightarrow> real" where
  "percentile srt p =
     (if length srt = 0 then 0
      else if p \<le> 0 then srt ! 0
      else if p \<ge> 1 then srt ! (length srt - 1)
      else
        (let index = p * real (length srt - 1);
             lower = nat \<lfloor>index\<rfloor>;
             upper = nat \<lceil>index\<rceil>
         in if lower = upper then srt ! lower
            else (let weight = index - real lower
                  in srt ! lower * (1 - weight) + srt ! upper * weight)))"

text \<open>
  The loop of \<open>removeOutliersIQR\<close> and of the MAD branch: a value that passes the test is
  appended to \<open>cleaned\<close>, any other value increments \<open>outlierCount\<close>.
\<close>

definition keep_or_count :: "(real \<Rightarrow> bool) \<Rightarrow> real list \<Rightarrow> real list \<times> int" where
  "keep_or_count keep vs =
     fold (\<lambda>v (cleaned, outlierCount).
             if keep v then (cleaned @ [v], outlierCount) else (cleaned, outlierCount + 1))
          vs ([], 0)"

definition removeOutliersIQR :: "CalculatorConfig \<Rightarrow> real list \<Rightarrow> real list \<times> int" where
  "removeOutliersIQR c srt =
     (let q1 = percentile srt (25 / 100);
          q3 = percentile srt (75 / 100);
          iqr = q3 - q1;
          lowerBound = q1 - OutlierThreshold c * iqr;
          upperBound = q3 + OutlierThreshold c * iqr
      in keep_or_count (\<lambda>v. v \<ge> lowerBound \<and> v \<le> upperBound) srt)"

text \<open>The locals \<open>median\<close>, \<open>mad\<close> and \<open>modifiedZScore\<close> of the MAD branch.\<close>

definition mad_median :: "real list \<Rightarrow> real" where
  "mad_median srt = percentile srt (1 / 2)"

definition mad_value :: "real list \<Rightarrow> real" where
  "mad_value srt =
     (let median = mad_median srt;
          deviations = sort (map (\<lambda>v. \<bar>v - median\<bar>) srt)
      in percentile deviations (1 / 2))"

definition modifiedZScore :: "real \<Rightarrow> real \<Rightarrow> real \<Rightarrow> real" where
  "modifiedZScore median mad v = 6745 / 10000 * (v - median) / mad"

text \<open>
  The symmetric trimming at the end of \<open>removeOutliers\<close>. The slice expression
  \<open>cleaned[trimCount : len(cleaned)-trimCount]\<close> is in range when \<open>TrimPercent < 0.5\<close>,
  which \<open>NewBlockTimeCalculator\<close> establishes (\<open>trim_in_range\<close> below); the model
  covers the configurations in that range.
\<close>

definition trim :: "CalculatorConfig \<Rightarrow> real list \<times> int \<Rightarrow> real list \<times> int" where
  "trim c r =
     (case r of (cleaned, outlierCount) \<Rightarrow>
        if TrimPercent c > 0 \<and> length cleaned > 10 then
          (let trimCount = go_int (real (length cleaned) * TrimPercent c)
           in if trimCount > 0
              then (take (length cleaned - 2 * nat trimCount) (drop (nat trimCount) (sort cleaned)),
                    outlierCount + trimCount * 2)
              else (cleaned, outlierCount))
        else (cleaned, outlierCount))"

definition removeOutliers :: "CalculatorConfig \<Rightarrow> real list \<Rightarrow> real list \<times> int" where
  "removeOutliers c tms =
     (if length tms \<le> 3 then (tms, 0)
      else
        (let srt = sort tms
         in if UseMedianAbsolute c then
              (let median = mad_median srt;
                   mad = mad_value srt;
                   threshold = 35 / 10
               in if mad = 0 then removeOutliersIQR c srt
                  else trim c (keep_or_count
                                 (\<lambda>v. \<bar>modifiedZScore median mad v\<bar> \<le> threshold) tms))
            else removeOutliersIQR c srt))"

definition calculateStatistics :: "real list \<Rightarrow> BlockTimeStats" where
  "calculateStatistics tms =
     (if length tms = 0 then zeroStats
      else
        (let srt = sort tms;
             mean = fold (\<lambda>v sum. sum + v) tms 0 / real (length tms);
             sumSquaredDiff = fold (\<lambda>v s. s + (v - mean) * (v - mean)) tms 0
         in zeroStats
              \<lparr>MinV := srt ! 0,
               MaxV := srt ! (length srt - 1),
               Median := percentile srt (1 / 2),
               P25 := percentile srt (25 / 100),
               P75 := percentile srt (75 / 100),
               P95 := percentile srt (95 / 100),
               P99 := percentile srt (99 / 100),
               Mean := mean,
               StdDev := sqrt (sumSquaredDiff / real (length tms))\<rparr>))"

definition calculateRange :: "CalculatorConfig \<Rightarrow> real list \<Rightarrow> BlockTimeStats \<Rightarrow> Range" where
  "calculateRange c tms stats =
     (if length tms = 0 then zeroRange
      else
        (let iqr = P75 stats - P25 stats;
             lower = max (P25 stats - 1 / 2 * iqr) (MinV stats);
             upper = min (P75 stats + 1 / 2 * iqr) (P95 stats);
             typical = Median stats;
             factor = ConfidenceLevel c / (95 / 100);
             rangeWidth = upper - lower;
             adjustment = rangeWidth * (1 - factor) / 2;
             lower' = (if ConfidenceLevel c < 95 / 100 then lower + adjustment else lower);
             upper' = (if ConfidenceLevel c < 95 / 100 then upper - adjustment else upper)
         in \<lparr>Lower = max lower' 0, Upper = upper', Typical = typical\<rparr>))"

text \<open>
  The range estimator as \<open>CalculateStatsForRange\<close> calls it: on the cleaned series and
  the statistics computed from that series.
\<close>

definition estimate :: "CalculatorConfig \<Rightarrow> real list \<Rightarrow> Range" where
  "estimate c cleaned = calculateRange c cleaned (calculateStatistics cleaned)"

section \<open>Errors\<close>

text \<open>
  One constructor for each error the source builds. \<open>Panic\<close> stands for a run-time panic
  of the Go program, which is not an error value of the source.
\<close>

datatype error =
    InvalidRange int int
  | InsufficientSampleSize int int
  | InsufficientValidBlockTimes int int
  | CountMustBePositive
  | ContextErr
  | RpcError string
  | FailedToGetStatus error
  | FailedToGetBlock int error
  | NilBlockResult int
  | FailedToGetBlockRange error
  | FailedToGetLatestHeight error
  | FailedToGetCurrentHeight error
  | FailedToCalculateStats error
  | FailedToGetCurrentBlock error
  | Panic string

text \<open>The two errors of the spec's class \<open>InsufficientSample\<close>.\<close>

fun is_InsufficientSample :: "error \<Rightarrow> bool" where
  "is_InsufficientSample (InsufficientSampleSize n m) = True"
| "is_InsufficientSample (InsufficientValidBlockTimes n m) = True"
| "is_InsufficientSample e = False"

fun is_InvalidRange :: "error \<Rightarrow> bool" where
  "is_InvalidRange (InvalidRange s e) = True"
| "is_InvalidRange e = False"

section \<open>The chain client (internal/client/client.go)\<close>

text \<open>
  The CometBFT HTTP client is outside the repository. Of a block only the fields that
  \<open>GetBlockRange\<close> reads are kept; \<open>Block r h\<close> is the answer of the node to
  \<open>c.client.Block(ctx, &h)\<close>: an error, a nil result (\<open>Inr None\<close>) or a block. The
  answer depends on the height only.
\<close>

record tmBlock =
  tmHeight :: int
  tmTime :: Time
  tmLastBlockIDHash :: string
  tmProposerAddress :: string
  tmTxs :: "string list"

record rpc =
  Status :: "error + int"
  Block :: "int \<Rightarrow> error + tmBlock option"

definition Sub :: "Time \<Rightarrow> Time \<Rightarrow> Duration" where
  "Sub t u = t - u"

definition Seconds :: "Duration \<Rightarrow> real" where
  "Seconds d = real_of_int d / 10 ^ 9"

text \<open>
  The sort of \<open>GetBlockRange\<close>: for every \<open>i\<close>, every later \<open>j\<close> is compared with
  position \<open>i\<close> and exchanged when out of order.
\<close>

definition swap_if_greater :: "nat \<Rightarrow> nat \<Rightarrow> tmBlock list \<Rightarrow> tmBlock list" where
  "swap_if_greater i j bs =
     (if tmHeight (bs ! i) > tmHeight (bs ! j) then bs[i := bs ! j, j := bs ! i] else bs)"

definition sort_inner :: "nat \<Rightarrow> tmBlock list \<Rightarrow> tmBlock list" where
  "sort_inner i bs = fold (swap_if_greater i) [i + 1 ..< length bs] bs"

definition sortByHeight :: "tmBlock list \<Rightarrow> tmBlock list" where
  "sortByHeight tmBlocks = fold sort_inner [0 ..< length tmBlocks - 1] tmBlocks"

text \<open>The conversion loop: \<open>BlockTime\<close> is set from the previous block when \<open>i > 0\<close>.\<close>

definition toBlockInfo :: "tmBlock list \<Rightarrow> nat \<Rightarrow> BlockInfo" where
  "toBlockInfo tmBlocks i =
     (let block = tmBlocks ! i
      in \<lparr>Height = tmHeight block,
          Time = tmTime block,
          Hash = tmLastBlockIDHash block,
          Proposer = tmProposerAddress block,
          TxCount = length (tmTxs block),
          BlockTime =
            (if i > 0 then Seconds (Sub (tmTime block) (tmTime (tmBlocks ! (i - 1)))) else 0)\<rparr>)"

definition convertBlocks :: "tmBlock list \<Rightarrow> BlockInfo list" where
  "convertBlocks tmBlocks = map (toBlockInfo tmBlocks) [0 ..< length tmBlocks]"

subsection \<open>The concurrent fetch\<close>

text \<open>
  \<open>GetBlockRange\<close> runs one goroutine per height. An execution is a list of events, the
  schedule: \<open>Main\<close> is the next step of the calling goroutine, \<open>Cancel\<close> the
  cancellation of the context, \<open>Answer h\<close> the body of the goroutine of height \<open>h\<close>
  (the call to the node and the delivery of its answer to \<open>errChan\<close> or \<open>blockChan\<close>),
  \<open>Exit h\<close> its deferred receive from the semaphore. An event that cannot happen
  in the state it meets (a send on the full semaphore, a goroutine that was not
  started) makes the schedule infeasible: the run is \<open>None\<close>.

  The program counter of the caller: \<open>LoopHead\<close> is the test of the launch loop and its
  \<open>select\<close> on the context, \<open>Acquire\<close> the send \<open>semaphore <- struct{}{}\<close> followed by
  the \<open>go\<close> statement, \<open>Join i\<close> the loop that sends \<open>maxConcurrent\<close> more tokens,
  with \<open>i\<close> sent so far, and after it the close of the channels, the error check, the
  sort and the conversion.
\<close>

definition maxConcurrent :: nat where
  "maxConcurrent = 10"

datatype pc = LoopHead | Acquire | Join nat | Returned "error + BlockInfo list"

datatype event = Main | Cancel | Answer int | Exit int

record fetch_state =
  height :: int
  pc :: pc
  ctxDone :: bool
  semaphore :: nat
  started :: "int list"
  exiting :: "int list"
  blockChan :: "tmBlock list"
  errChan :: "error option"
  calls :: "int list"

definition init_state :: "int \<Rightarrow> fetch_state" where
  "init_state startHeight =
     \<lparr>height = startHeight, pc = LoopHead, ctxDone = False, semaphore = 0, started = [],
      exiting = [], blockChan = [], errChan = None, calls = []\<rparr>"

definition finish :: "fetch_state \<Rightarrow> error + BlockInfo list" where
  "finish s =
     (case errChan s of
        Some err \<Rightarrow> Inl err
      | None \<Rightarrow> Inr (convertBlocks (sortByHeight (blockChan s))))"

definition main_step :: "int \<Rightarrow> fetch_state \<Rightarrow> fetch_state option" where
  "main_step endHeight s =
     (case pc s of
        LoopHead \<Rightarrow>
          if height s \<le> endHeight
          then (if ctxDone s then Some (s\<lparr>pc := Returned (Inl ContextErr)\<rparr>)
                else Some (s\<lparr>pc := Acquire\<rparr>))
          else Some (s\<lparr>pc := Join 0\<rparr>)
      | Acquire \<Rightarrow>
          if semaphore s < maxConcurrent
          then Some (s\<lparr>semaphore := semaphore s + 1,
                       started := started s @ [height s],
                       height := height s + 1,
                       pc := LoopHead\<rparr>)
          else None
      | Join i \<Rightarrow>
          if i < maxConcurrent
          then (if semaphore s < maxConcurrent
                then Some (s\<lparr>semaphore := semaphore s + 1, pc := Join (i + 1)\<rparr>)
                else None)
          else Some (s\<lparr>pc := Returned (finish s)\<rparr>)
      | Returned r \<Rightarrow> None)"

text \<open>
  The goroutine: an error is offered to \<open>errChan\<close> (capacity 1) without blocking, so only
  the first one is kept; a nil result sends nothing; a block is sent to \<open>blockChan\<close>,
  whose capacity is the size of the range.
\<close>

definition deliver :: "int \<Rightarrow> error + tmBlock option \<Rightarrow> fetch_state \<Rightarrow> fetch_state" where
  "deliver h answer s =
     (case answer of
        Inl err \<Rightarrow>
          (case errChan s of
             None \<Rightarrow> s\<lparr>errChan := Some (FailedToGetBlock h err)\<rparr>
           | Some e \<Rightarrow> s)
      | Inr None \<Rightarrow> s
      | Inr (Some b) \<Rightarrow> s\<lparr>blockChan := blockChan s @ [b]\<rparr>)"

definition answer_step :: "rpc \<Rightarrow> int \<Rightarrow> fetch_state \<Rightarrow> fetch_state option" where
  "answer_step r h s =
     (if h \<in> set (started s)
      then Some ((deliver h (Block r h) s)
                   \<lparr>started := remove1 h (started s),
                    exiting := exiting s @ [h],
                    calls := calls s @ [h]\<rparr>)
      else None)"

definition exit_step :: "int \<Rightarrow> fetch_state \<Rightarrow> fetch_state option" where
  "exit_step h s =
     (if h \<in> set (exiting s) \<and> semaphore s > 0
      then Some (s\<lparr>exiting := remove1 h (exiting s), semaphore := semaphore s - 1\<rparr>)
      else None)"

fun step :: "rpc \<Rightarrow> int \<Rightarrow> event \<Rightarrow> fetch_state \<Rightarrow> fetch_state option" where
  "step r endHeight Main s = main_step endHeight s"
| "step r endHeight Cancel s = Some (s\<lparr>ctxDone := True\<rparr>)"
| "step r endHeight (Answer h) s = answer_step r h s"
| "step r endHeight (Exit h) s = exit_step h s"

fun exec :: "rpc \<Rightarrow> int \<Rightarrow> event list \<Rightarrow> fetch_state \<Rightarrow> fetch_state option" where
  "exec r endHeight [] s = Some s"
| "exec r endHeight (ev # evs) s =
     (case step r endHeight ev s of
        None \<Rightarrow> None
      | Some s' \<Rightarrow> exec r endHeight evs s')"

text \<open>
  \<open>GetBlockRange\<close> of \<open>CosmosSDKClient\<close> under a schedule: the value returned and the
  heights asked of the node, in the order of the answers. \<open>None\<close> when the schedule
  is infeasible or ends before the caller has returned.
\<close>

definition CosmosSDKClient_GetBlockRange ::
  "rpc \<Rightarrow> event list \<Rightarrow> int \<Rightarrow> int \<Rightarrow> ((error + BlockInfo list) \<times> int list) option" where
  "CosmosSDKClient_GetBlockRange r sched startHeight endHeight =
     (if startHeight > endHeight then Some (Inl (InvalidRange startHeight endHeight), [])
      else
        (case exec r endHeight sched (init_state startHeight) of
           None \<Rightarrow> None
         | Some s \<Rightarrow> (case pc s of Returned res \<Rightarrow> Some (res, calls s) | _ \<Rightarrow> None)))"

text \<open>
  The schedule that runs the goroutines one after the other: each height is admitted,
  answered and released before the next, then the caller joins and returns.
\<close>

definition sequential :: "int \<Rightarrow> int \<Rightarrow> event list" where
  "sequential startHeight endHeight =
     concat (map (\<lambda>h. [Main, Main, Answer h, Exit h]) [startHeight .. endHeight])
     @ replicate (maxConcurrent + 2) Main"

subsection \<open>Invariant of the concurrent fetch\<close>

text \<open>
  What the channels hold is determined by the heights answered so far, in the order of
  the answers: \<open>blockChan\<close> holds the blocks of the answers that carried one,
  \<open>errChan\<close> the error of the first answer that failed. \<open>idle\<close> is the state of the
  caller between two rounds of the sequential schedule.
\<close>

definition fetched :: "rpc \<Rightarrow> int list \<Rightarrow> tmBlock list" where
  "fetched r hs = concat (map (\<lambda>h. case Block r h of Inr (Some b) \<Rightarrow> [b] | _ \<Rightarrow> []) hs)"

definition first_error :: "rpc \<Rightarrow> int list \<Rightarrow> error option" where
  "first_error r hs =
     (case filter (\<lambda>h. isl (Block r h)) hs of
        [] \<Rightarrow> None
      | h # _ \<Rightarrow> Some (FailedToGetBlock h (projl (Block r h))))"

definition outcome :: "rpc \<Rightarrow> int list \<Rightarrow> error + BlockInfo list" where
  "outcome r cs =
     (case first_error r cs of
        Some err \<Rightarrow> Inl err
      | None \<Rightarrow> Inr (convertBlocks (sortByHeight (fetched r cs))))"

definition returned_ok :: "rpc \<Rightarrow> int \<Rightarrow> int \<Rightarrow> error + BlockInfo list \<Rightarrow> bool" where
  "returned_ok r startHeight endHeight res =
     (res = Inl ContextErr
      \<or> (\<exists>cs. distinct cs \<and> set cs = {startHeight .. endHeight} \<and> res = outcome r cs))"

definition join_count :: "pc \<Rightarrow> nat" where
  "join_count p = (case p of Join i \<Rightarrow> i | _ \<Rightarrow> 0)"

definition running_inv :: "rpc \<Rightarrow> int \<Rightarrow> int \<Rightarrow> fetch_state \<Rightarrow> bool" where
  "running_inv r startHeight endHeight s =
     (startHeight \<le> height s \<and> height s \<le> endHeight + 1
      \<and> (pc s = Acquire \<longrightarrow> height s \<le> endHeight)
      \<and> (\<forall>i. pc s = Join i \<longrightarrow> height s = endHeight + 1 \<and> i \<le> maxConcurrent)
      \<and> semaphore s = length (started s) + length (exiting s) + join_count (pc s)
      \<and> semaphore s \<le> maxConcurrent
      \<and> distinct (started s @ calls s)
      \<and> set (started s) \<union> set (calls s) = {startHeight ..< height s}
      \<and> errChan s = first_error r (calls s)
      \<and> blockChan s = fetched r (calls s))"

definition fetch_inv :: "rpc \<Rightarrow> int \<Rightarrow> int \<Rightarrow> fetch_state \<Rightarrow> bool" where
  "fetch_inv r startHeight endHeight s =
     (case pc s of
        Returned res \<Rightarrow> returned_ok r startHeight endHeight res
      | _ \<Rightarrow> running_inv r startHeight endHeight s)"

definition idle :: "int \<Rightarrow> fetch_state \<Rightarrow> bool" where
  "idle h s \<longleftrightarrow> pc s = LoopHead \<and> \<not> ctxDone s \<and> semaphore s = 0 \<and> started s = []
               \<and> exiting s = [] \<and> height s = h"

section \<open>The calculator (internal/calculator/calculator.go)\<close>

text \<open>
  The interface \<open>BlockchainClient\<close>, as the calculator and the predictor see it: the
  answers of one call.
\<close>

record BlockchainClient =
  GetLatestBlockHeight :: "error + int"
  GetBlockByHeight :: "int \<Rightarrow> error + BlockInfo"
  GetBlockRange :: "int \<Rightarrow> int \<Rightarrow> error + BlockInfo list"

record BlockTimeCalculator =
  client :: BlockchainClient
  config :: CalculatorConfig

definition NewBlockTimeCalculator :: "BlockchainClient \<Rightarrow> CalculatorConfig \<Rightarrow> BlockTimeCalculator" where
  "NewBlockTimeCalculator cl cfg =
     (let c1 = (if SampleSize cfg \<le> 0 then cfg\<lparr>SampleSize := 100\<rparr> else cfg);
          c2 = (if MinSampleSize c1 \<le> 0 then c1\<lparr>MinSampleSize := 30\<rparr> else c1);
          c3 = (if OutlierThreshold c2 \<le> 0 then c2\<lparr>OutlierThreshold := 3 / 2\<rparr> else c2);
          c4 = (if ConfidenceLevel c3 \<le> 0 \<or> ConfidenceLevel c3 \<ge> 1
                then c3\<lparr>ConfidenceLevel := 95 / 100\<rparr> else c3);
          c5 = (if TrimPercent c4 < 0 \<or> TrimPercent c4 \<ge> 1 / 2
                then c4\<lparr>TrimPercent := 5 / 100\<rparr> else c4)
      in \<lparr>client = cl, config = c5\<rparr>)"

text \<open>The loop that computes the positive differences of consecutive block times.\<close>

definition blockTimes :: "BlockInfo list \<Rightarrow> real list" where
  "blockTimes blocks =
     fold (\<lambda>i acc.
             (let timeDiff = Seconds (Sub (Time (blocks ! i)) (Time (blocks ! (i - 1))))
              in if timeDiff > 0 then acc @ [timeDiff] else acc))
          [1 ..< length blocks] []"

text \<open>
  \<open>CalculateStatsForRange\<close>. With no block at all, \<open>make([]float64, 0, len(blocks)-1)\<close>
  panics on the negative capacity.
\<close>

definition summarize :: "CalculatorConfig \<Rightarrow> int \<Rightarrow> int \<Rightarrow> BlockInfo list \<Rightarrow> real list \<Rightarrow> BlockTimeStats" where
  "summarize cfg startHeight endHeight blocks bts =
     (case removeOutliers cfg bts of
        (cleanedTimes, outlierCount) \<Rightarrow>
          (let stats = (calculateStatistics cleanedTimes)
                 \<lparr>BlockTimeStats.SampleSize := int (length bts),
                  StartHeight := startHeight,
                  EndHeight := endHeight,
                  StartTime := Time (blocks ! 0),
                  EndTime := Time (blocks ! (length blocks - 1)),
                  OutlierCount := outlierCount,
                  BlockTimeStats.ConfidenceLevel := ConfidenceLevel cfg\<rparr>
           in stats\<lparr>EstimatedRange := calculateRange cfg cleanedTimes stats\<rparr>))"

definition CalculateStatsForRange :: "BlockTimeCalculator \<Rightarrow> int \<Rightarrow> int \<Rightarrow> error + BlockTimeStats" where
  "CalculateStatsForRange c startHeight endHeight =
     (if startHeight > endHeight then Inl (InvalidRange startHeight endHeight)
      else
        (let sampleSize = endHeight - startHeight + 1
         in if sampleSize < MinSampleSize (config c)
            then Inl (InsufficientSampleSize sampleSize (MinSampleSize (config c)))
            else
              (case GetBlockRange (client c) startHeight endHeight of
                 Inl err \<Rightarrow> Inl (FailedToGetBlockRange err)
               | Inr blocks \<Rightarrow>
                   if blocks = [] then Inl (Panic ''makeslice: cap out of range'')
                   else
                     (let bts = blockTimes blocks
                      in if int (length bts) < MinSampleSize (config c)
                         then Inl (InsufficientValidBlockTimes (int (length bts))
                                     (MinSampleSize (config c)))
                         else Inr (summarize (config c) startHeight endHeight blocks bts)))))"

definition CalculateStats :: "BlockTimeCalculator \<Rightarrow> error + BlockTimeStats" where
  "CalculateStats c =
     (case GetLatestBlockHeight (client c) of
        Inl err \<Rightarrow> Inl (FailedToGetLatestHeight err)
      | Inr latestHeight \<Rightarrow>
          (let startHeight = latestHeight - SampleSize (config c) + 1;
               startHeight' = (if startHeight < 1 then 1 else startHeight)
           in CalculateStatsForRange c startHeight' latestHeight))"

text \<open>
  The other two methods of \<open>CosmosSDKClient\<close>, and the client as an implementation of
  the interface. Its \<open>GetBlockRange\<close> is taken under the sequential schedule, which
  always runs to the end (\<open>sequential_returns\<close> below); the \<open>Panic\<close> branch is
  there to make the function total.
\<close>

definition CosmosSDKClient_GetLatestBlockHeight :: "rpc \<Rightarrow> error + int" where
  "CosmosSDKClient_GetLatestBlockHeight r =
     (case Status r of Inl err \<Rightarrow> Inl (FailedToGetStatus err) | Inr h \<Rightarrow> Inr h)"

definition CosmosSDKClient_GetBlockByHeight :: "rpc \<Rightarrow> int \<Rightarrow> error + BlockInfo" where
  "CosmosSDKClient_GetBlockByHeight r h =
     (case Block r h of
        Inl err \<Rightarrow> Inl (FailedToGetBlock h err)
      | Inr None \<Rightarrow> Inl (NilBlockResult h)
      | Inr (Some b) \<Rightarrow>
          Inr \<lparr>Height = tmHeight b, Time = tmTime b, Hash = tmLastBlockIDHash b,
               Proposer = tmProposerAddress b, TxCount = length (tmTxs b), BlockTime = 0\<rparr>)"

definition CosmosSDKClient :: "rpc \<Rightarrow> BlockchainClient" where
  "CosmosSDKClient r =
     \<lparr>GetLatestBlockHeight = CosmosSDKClient_GetLatestBlockHeight r,
      GetBlockByHeight = CosmosSDKClient_GetBlockByHeight r,
      GetBlockRange =
        (\<lambda>startHeight endHeight.
           case CosmosSDKClient_GetBlockRange r (sequential startHeight endHeight)
                  startHeight endHeight of
             Some (res, cs) \<Rightarrow> res
           | None \<Rightarrow> Inl (Panic ''no run''))\<rparr>"

section \<open>The predictor (internal/calculator/predictor.go)\<close>

record BlockMilestone =
  Height :: int
  BlocksFromNow :: int
  EstimatedTime :: Time
  Duration :: Duration

record MultiBlockPrediction =
  CurrentHeight :: int
  CurrentTime :: Time
  CurrentBlockAge :: Duration
  Predictions :: "BlockMilestone list"
  Stats :: BlockTimeStats

record BlockPredictor =
  client :: BlockchainClient
  calculator :: BlockTimeCalculator

text \<open>
  \<open>time.Duration(seconds * float64(time.Second))\<close>: the number of nanoseconds, truncated
  toward zero.
\<close>

definition secondsToDuration :: "real \<Rightarrow> Duration" where
  "secondsToDuration seconds = go_int (seconds * 10 ^ 9)"

text \<open>The body of the loop of \<open>PredictNextBlocks\<close> at index \<open>i\<close>.\<close>

definition milestone :: "int \<Rightarrow> Time \<Rightarrow> BlockTimeStats \<Rightarrow> nat \<Rightarrow> BlockMilestone" where
  "milestone currentHeight now stats i =
     (let blocksAhead = int i + 1;
          height = currentHeight + blocksAhead;
          typicalSeconds = real_of_int blocksAhead * Typical (EstimatedRange stats);
          estimatedTime = now + secondsToDuration typicalSeconds
      in \<lparr>Height = height, BlocksFromNow = blocksAhead, EstimatedTime = estimatedTime,
          Duration = secondsToDuration typicalSeconds\<rparr>)"

text \<open>\<open>PredictNextBlocks\<close>; \<open>now\<close> is the value of \<open>time.Now()\<close>.\<close>

definition PredictNextBlocks :: "BlockPredictor \<Rightarrow> Time \<Rightarrow> int \<Rightarrow> error + MultiBlockPrediction" where
  "PredictNextBlocks p now cnt =
     (if cnt \<le> 0 then Inl CountMustBePositive
      else
        (case GetLatestBlockHeight (BlockPredictor.client p) of
           Inl err \<Rightarrow> Inl (FailedToGetCurrentHeight err)
         | Inr currentHeight \<Rightarrow>
             (case CalculateStats (calculator p) of
                Inl err \<Rightarrow> Inl (FailedToCalculateStats err)
              | Inr stats \<Rightarrow>
                  (case GetBlockByHeight (BlockPredictor.client p) currentHeight of
                     Inl err \<Rightarrow> Inl (FailedToGetCurrentBlock err)
                   | Inr currentBlock \<Rightarrow>
                       Inr \<lparr>CurrentHeight = currentHeight,
                            CurrentTime = now,
                            CurrentBlockAge = Sub now (Time currentBlock),
                            Predictions =
                              map (milestone currentHeight now stats) [0 ..< nat cnt],
                            Stats = stats\<rparr>))))"

section \<open>Slices and their backing arrays\<close>

text \<open>
  \<open>removeOutliers\<close> and \<open>calculateStatistics\<close> once more, now on Go slices: the heap
  is the list of the backing arrays allocated so far, a slice is a window
  (\<open>off\<close>, \<open>len\<close>, \<open>cap\<close>) on the array \<open>base\<close>. \<open>go_make\<close>, \<open>go_copy\<close>
  and \<open>go_append\<close> are the builtins \<open>make\<close>, \<open>copy\<close> and \<open>append\<close>: the first
  allocates a zeroed array, \<open>go_copy\<close> and \<open>sort_Float64s\<close> write through the slice
  they are given, and \<open>go_append\<close> writes in place while the capacity lasts and moves to a
  new array, of the capacity \<open>grow\<close> chooses, when it does not. A \<open>range\<close> loop reads
  its elements from the heap as it goes. The nil slice has capacity 0, so nothing is read
  or written through it.
\<close>

type_synonym heap = "real list list"

record slice =
  base :: nat
  off :: nat
  len :: nat
  cap :: nat

definition nil_slice :: slice where
  "nil_slice = \<lparr>base = 0, off = 0, len = 0, cap = 0\<rparr>"

definition valid_slice :: "heap \<Rightarrow> slice \<Rightarrow> bool" where
  "valid_slice h s \<longleftrightarrow>
     base s < length h \<and> off s + cap s \<le> length (h ! base s) \<and> len s \<le> cap s"

definition content :: "heap \<Rightarrow> slice \<Rightarrow> real list" where
  "content h s = take (len s) (drop (off s) (h ! base s))"

definition get :: "heap \<Rightarrow> slice \<Rightarrow> nat \<Rightarrow> real" where
  "get h s i = h ! base s ! (off s + i)"

definition set_at :: "heap \<Rightarrow> slice \<Rightarrow> nat \<Rightarrow> real \<Rightarrow> heap" where
  "set_at h s i v = h[base s := (h ! base s)[off s + i := v]]"

definition store :: "heap \<Rightarrow> slice \<Rightarrow> real list \<Rightarrow> heap" where
  "store h s vs =
     h[base s := take (off s) (h ! base s) @ vs @ drop (off s + length vs) (h ! base s)]"

definition go_make :: "heap \<Rightarrow> nat \<Rightarrow> nat \<Rightarrow> heap \<times> slice" where
  "go_make h n c = (h @ [replicate c 0], \<lparr>base = length h, off = 0, len = n, cap = c\<rparr>)"

definition go_copy :: "heap \<Rightarrow> slice \<Rightarrow> slice \<Rightarrow> heap" where
  "go_copy h dst src = store h dst (take (min (len dst) (len src)) (content h src))"

definition sort_Float64s :: "heap \<Rightarrow> slice \<Rightarrow> heap" where
  "sort_Float64s h s = store h s (sort (content h s))"

definition go_append :: "(nat \<Rightarrow> nat) \<Rightarrow> heap \<Rightarrow> slice \<Rightarrow> real \<Rightarrow> heap \<times> slice" where
  "go_append grow h s v =
     (if len s < cap s then (set_at h s (len s) v, s\<lparr>len := len s + 1\<rparr>)
      else
        (let c = max (grow (cap s)) (len s + 1)
         in (h @ [content h s @ [v] @ replicate (c - len s - 1) 0],
             \<lparr>base = length h, off = 0, len = len s + 1, cap = c\<rparr>)))"

definition reslice :: "slice \<Rightarrow> nat \<Rightarrow> nat \<Rightarrow> slice" where
  "reslice s lo hi = \<lparr>base = base s, off = off s + lo, len = hi - lo, cap = cap s - lo\<rparr>"

definition h_keep_step ::
  "(nat \<Rightarrow> nat) \<Rightarrow> (real \<Rightarrow> bool) \<Rightarrow> slice \<Rightarrow> nat \<Rightarrow> heap \<times> slice \<times> int \<Rightarrow> heap \<times> slice \<times> int" where
  "h_keep_step grow keep src i st =
     (case st of (h, cleaned, outlierCount) \<Rightarrow>
        (let v = get h src i
         in if keep v
            then (case go_append grow h cleaned v of (h', cleaned') \<Rightarrow> (h', cleaned', outlierCount))
            else (h, cleaned, outlierCount + 1)))"

definition h_keep_or_count ::
  "(nat \<Rightarrow> nat) \<Rightarrow> (real \<Rightarrow> bool) \<Rightarrow> slice \<Rightarrow> heap \<times> slice \<times> int \<Rightarrow> heap \<times> slice \<times> int" where
  "h_keep_or_count grow keep src st = fold (h_keep_step grow keep src) [0 ..< len src] st"

definition h_removeOutliersIQR ::
  "(nat \<Rightarrow> nat) \<Rightarrow> CalculatorConfig \<Rightarrow> heap \<Rightarrow> slice \<Rightarrow> heap \<times> slice \<times> int" where
  "h_removeOutliersIQR grow c h srt =
     (let q1 = percentile (content h srt) (25 / 100);
          q3 = percentile (content h srt) (75 / 100);
          iqr = q3 - q1;
          lowerBound = q1 - OutlierThreshold c * iqr;
          upperBound = q3 + OutlierThreshold c * iqr
      in case go_make h 0 (len srt) of
           (h1, cleaned) \<Rightarrow>
             h_keep_or_count grow (\<lambda>v. v \<ge> lowerBound \<and> v \<le> upperBound) srt (h1, cleaned, 0))"

definition h_trim :: "CalculatorConfig \<Rightarrow> heap \<times> slice \<times> int \<Rightarrow> heap \<times> slice \<times> int" where
  "h_trim c st =
     (case st of (h, cleaned, outlierCount) \<Rightarrow>
        if TrimPercent c > 0 \<and> len cleaned > 10 then
          (let trimCount = go_int (real (len cleaned) * TrimPercent c)
           in if trimCount > 0
              then (sort_Float64s h cleaned,
                    reslice cleaned (nat trimCount) (len cleaned - nat trimCount),
                    outlierCount + trimCount * 2)
              else (h, cleaned, outlierCount))
        else (h, cleaned, outlierCount))"

definition h_deviations :: "heap \<Rightarrow> slice \<Rightarrow> slice \<Rightarrow> real \<Rightarrow> heap" where
  "h_deviations h deviations srt median =
     fold (\<lambda>i h. set_at h deviations i \<bar>get h srt i - median\<bar>) [0 ..< len srt] h"

definition h_removeOutliers ::
  "(nat \<Rightarrow> nat) \<Rightarrow> CalculatorConfig \<Rightarrow> heap \<Rightarrow> slice \<Rightarrow> heap \<times> slice \<times> int" where
  "h_removeOutliers grow c h tms =
     (if len tms \<le> 3 then (h, tms, 0)
      else
        (case go_make h (len tms) (len tms) of
           (h1, srt) \<Rightarrow>
             (let h2 = go_copy h1 srt tms;
                  h3 = sort_Float64s h2 srt
              in if UseMedianAbsolute c then
                   (let median = percentile (content h3 srt) (1 / 2)
                    in case go_make h3 (len srt) (len srt) of
                         (h4, deviations) \<Rightarrow>
                           (let h5 = h_deviations h4 deviations srt median;
                                h6 = sort_Float64s h5 deviations;
                                mad = percentile (content h6 deviations) (1 / 2);
                                threshold = 35 / 10
                            in if mad = 0 then h_removeOutliersIQR grow c h6 srt
                               else h_trim c
                                      (h_keep_or_count grow
                                         (\<lambda>v. \<bar>modifiedZScore median mad v\<bar> \<le> threshold)
                                         tms (h6, nil_slice, 0))))
                 else h_removeOutliersIQR grow c h3 srt)))"

definition h_calculateStatistics :: "heap \<Rightarrow> slice \<Rightarrow> heap \<times> BlockTimeStats" where
  "h_calculateStatistics h tms =
     (if len tms = 0 then (h, zeroStats)
      else
        (case go_make h (len tms) (len tms) of
           (h1, srt) \<Rightarrow>
             (let h2 = go_copy h1 srt tms;
                  h3 = sort_Float64s h2 srt;
                  mean = fold (\<lambda>i sum. sum + get h3 tms i) [0 ..< len tms] 0 / real (len tms);
                  sumSquaredDiff =
                    fold (\<lambda>i s. s + (get h3 tms i - mean) * (get h3 tms i - mean))
                      [0 ..< len tms] 0
              in (h3,
                  zeroStats
                    \<lparr>MinV := get h3 srt 0,
                     MaxV := get h3 srt (len srt - 1),
                     Median := percentile (content h3 srt) (1 / 2),
                     P25 := percentile (content h3 srt) (25 / 100),
                     P75 := percentile (content h3 srt) (75 / 100),
                     P95 := percentile (content h3 srt) (95 / 100),
                     P99 := percentile (content h3 srt) (99 / 100),
                     Mean := mean,
                     StdDev := sqrt (sumSquaredDiff / real (len tms))\<rparr>))))"

text \<open>
  \<open>frame h0 h\<close>: every array of \<open>h0\<close> is in \<open>h\<close>, unchanged; \<open>h\<close> may hold more.
  \<open>fresh h0 s\<close>: the slice \<open>s\<close> is nil or lies in an array allocated after \<open>h0\<close>.
\<close>

definition frame :: "heap \<Rightarrow> heap \<Rightarrow> bool" where
  "frame h0 h \<longleftrightarrow> length h0 \<le> length h \<and> take (length h0) h = h0"

definition fresh :: "heap \<Rightarrow> slice \<Rightarrow> bool" where
  "fresh h0 s \<longleftrightarrow> len s \<le> cap s \<and> (cap s = 0 \<or> length h0 \<le> base s)"

section \<open>Example nodes\<close>

text \<open>
  A node whose chain has the blocks of heights \<open>1 .. length ts\<close>, the block of height
  \<open>h\<close> carrying the time \<open>ts ! (h - 1)\<close> in seconds; it refuses every other height.
\<close>

definition block_at :: "int \<Rightarrow> int \<Rightarrow> tmBlock" where
  "block_at h secs =
     \<lparr>tmHeight = h, tmTime = secs * 10 ^ 9, tmLastBlockIDHash = [],
      tmProposerAddress = [], tmTxs = []\<rparr>"

definition node_of :: "int list \<Rightarrow> rpc" where
  "node_of ts =
     \<lparr>Status = Inr (int (length ts)),
      Block = (\<lambda>h. if 1 \<le> h \<and> h \<le> int (length ts)
                    then Inr (Some (block_at h (ts ! nat (h - 1))))
                    else Inl (RpcError ''height out of range''))\<rparr>"

text \<open>A node at height \<open>head\<close> whose blocks are \<open>secs\<close> seconds apart.\<close>

definition steady_node :: "int \<Rightarrow> int \<Rightarrow> rpc" where
  "steady_node head secs =
     \<lparr>Status = Inr head,
      Block = (\<lambda>h. if 1 \<le> h \<and> h \<le> head
                    then Inr (Some (block_at h (h * secs)))
                    else Inl (RpcError ''height out of range''))\<rparr>"

text \<open>
  A node at height 5 with blocks six seconds apart that answers height 3 with a nil
  result and no error.
\<close>

definition gap_node :: rpc where
  "gap_node =
     \<lparr>Status = Inr 5,
      Block = (\<lambda>h. if h = 3 then Inr None
                    else if 1 \<le> h \<and> h \<le> 5 then Inr (Some (block_at h (6 * (h - 1))))
                    else Inl (RpcError ''height out of range''))\<rparr>"

section \<open>Example inputs\<close>

text \<open>
  Nine blocks whose consecutive times differ by 5, 5, 6, 6, 6, 7, 7 and 100 seconds,
  and a calculator that asks for at least eight block times.
\<close>

definition chain9 :: "int list" where
  "chain9 = [0, 5, 10, 16, 22, 28, 35, 42, 142]"

definition blocks9 :: "BlockInfo list" where
  "blocks9 = convertBlocks (map (\<lambda>h. block_at h (chain9 ! nat (h - 1))) [1, 2, 3, 4, 5, 6, 7, 8, 9])"

definition calc9 :: BlockTimeCalculator where
  "calc9 = NewBlockTimeCalculator (CosmosSDKClient (node_of chain9))
             (DefaultConfig\<lparr>SampleSize := 9, MinSampleSize := 8\<rparr>)"

text \<open>Nine blocks of which two carry the same time: seven positive differences.\<close>

definition chain9dup :: "int list" where
  "chain9dup = [0, 5, 10, 16, 22, 28, 35, 35, 42]"

definition blocks9dup :: "BlockInfo list" where
  "blocks9dup =
     convertBlocks (map (\<lambda>h. block_at h (chain9dup ! nat (h - 1))) [1, 2, 3, 4, 5, 6, 7, 8, 9])"

definition calc9dup :: BlockTimeCalculator where
  "calc9dup = NewBlockTimeCalculator (CosmosSDKClient (node_of chain9dup))
                (DefaultConfig\<lparr>SampleSize := 9, MinSampleSize := 8\<rparr>)"



text \<open>
  Scenario C of the specification: a node at height 100 with blocks six seconds apart,
  sampled over its last five blocks.
\<close>

definition blocksC :: "BlockInfo list" where
  "blocksC = convertBlocks (map (\<lambda>h. block_at h (h * 6)) [96, 97, 98, 99, 100])"

definition calcC :: BlockTimeCalculator where
  "calcC = NewBlockTimeCalculator (CosmosSDKClient (steady_node 100 6))
             (DefaultConfig\<lparr>SampleSize := 5, MinSampleSize := 4\<rparr>)"

definition predC :: BlockPredictor where
  "predC = \<lparr>client = CosmosSDKClient (steady_node 100 6), calculator = calcC\<rparr>"

text \<open>
  Two schedules in which the answers arrive out of the order of the heights, on a node
  with three blocks, and a calculator on that node.
\<close>

definition out_of_order4 :: "event list" where
  "out_of_order4 =
     replicate 8 Main
     @ [Answer 4, Answer 2, Answer 1, Answer 3, Exit 1, Exit 2, Exit 3, Exit 4]
     @ replicate 12 Main"

definition out_of_order3 :: "event list" where
  "out_of_order3 =
     replicate 6 Main
     @ [Answer 3, Exit 3, Answer 1, Answer 2, Exit 2, Exit 1]
     @ replicate 12 Main"

definition calcF :: BlockTimeCalculator where
  "calcF = NewBlockTimeCalculator (CosmosSDKClient (node_of [0, 5, 10]))
             (DefaultConfig\<lparr>SampleSize := 4, MinSampleSize := 3\<rparr>)"

definition blocks3 :: "BlockInfo list" where
  "blocks3 = convertBlocks [block_at 1 0, block_at 2 5, block_at 3 10]"

text \<open>
  A heap with one array, a slice covering it, and the growth policy that doubles the
  capacity.
\<close>

definition heapA :: heap where
  "heapA = [[7, 5, 100, 6, 5, 6, 7, 6]]"

definition sliceA :: slice where
  "sliceA = \<lparr>base = 0, off = 0, len = 8, cap = 8\<rparr>"

definition doubling :: "nat \<Rightarrow> nat" where
  "doubling c = 2 * c"

text \<open>
  The blocks of heights 1, 2, 4 and 5 of the node with the nil answer, and a calculator
  on that node that asks for at least three block times.
\<close>

definition blocksGap :: "BlockInfo list" where
  "blocksGap = convertBlocks [block_at 1 0, block_at 2 6, block_at 4 18, block_at 5 24]"

definition calcGap :: BlockTimeCalculator where
  "calcGap = NewBlockTimeCalculator (CosmosSDKClient gap_node)
               (DefaultConfig\<lparr>SampleSize := 5, MinSampleSize := 3\<rparr>)"

section \<open>Reference definitions\<close>

text \<open>
  The standard median in the words of the specification: the middle element of a
  sequence of odd length, the average of the two middle elements of a sequence of even
  length.
\<close>

definition median_spec :: "real list \<Rightarrow> real" where
  "median_spec s =
     (if odd (length s) then s ! (length s div 2)
      else (s ! (length s div 2 - 1) + s ! (length s div 2)) / 2)"

section \<open>Percentiles\<close>

lemma percentile_half_odd:
  assumes "length s = 2 * k + 1"
  shows "percentile s (1 / 2) = s ! k"
  using assms by (simp add: percentile_def Let_def)

lemma percentile_half_even:
  assumes "length s = 2 * k" "k > 0"
  shows "percentile s (1 / 2) = (s ! (k - 1) + s ! k) / 2"
proof -
  from assms obtain j where j: "k = Suc j" by (cases k) auto
  have idx: "1 / 2 * real (length s - 1) = real j + 1 / 2"
    using assms j by (simp add: field_simps)
  have fl: "nat \<lfloor>real j + 1 / 2\<rfloor> = j" by linarith
  have ce: "nat \<lceil>real j + 1 / 2\<rceil> = Suc j" by linarith
  have "percentile s (1 / 2) = s ! j * (1 - 1 / 2) + s ! Suc j * (1 / 2)"
    unfolding percentile_def Let_def idx fl ce using assms j by simp
  then show ?thesis using j by (simp add: field_simps)
qed

text \<open>
  C6. On every sorted non-empty sequence, \<open>percentile\<close> at \<open>0.5\<close> is the standard median:
  the middle element for an odd length, the average of the two middle elements for an
  even length.
\<close>

theorem percentile_half_is_median:
  assumes "sorted s" "s \<noteq> []"
  shows "percentile s (1 / 2) = median_spec s"
proof (cases "odd (length s)")
  case True
  then obtain k where "length s = 2 * k + 1" by (auto elim: oddE)
  then show ?thesis using percentile_half_odd[of s k] by (simp add: median_spec_def)
next
  case False
  then obtain k where k: "length s = 2 * k" by (auto elim: evenE)
  with assms have "k > 0" by (cases k) auto
  then show ?thesis using percentile_half_even[of s k] k by (simp add: median_spec_def)
qed

theorem percentile_half_is_median_witness:
  "sorted [1, 2, 4, 8 :: real] \<and> [1, 2, 4, 8 :: real] \<noteq> []
   \<and> percentile [1, 2, 4, 8] (1 / 2) = 3 \<and> median_spec [1, 2, 4, 8] = 3"
  using percentile_half_is_median[of "[1, 2, 4, 8]"]
  by (simp add: median_spec_def)

section \<open>The range estimator\<close>

text \<open>
  C8. The lower bound of the estimated range is never negative, whatever the series,
  the statistics and the configuration: the last step of \<open>calculateRange\<close> is the
  clamp \<open>math.Max(lower, 0)\<close>.
\<close>

theorem calculateRange_lower_nonneg: "0 \<le> Lower (calculateRange c tms stats)"
  by (simp add: calculateRange_def zeroRange_def Let_def)

text \<open>
  The ordering \<open>lower \<le> typical \<le> upper\<close> can fail once the confidence level is below
  0.95: on a series whose median is its minimum, any narrowing lifts the lower bound
  above the typical value. \<open>calculateRange\<close> applies no clamp around the median.
\<close>

lemmas stat_defs = removeOutliers_def DefaultConfig_def mad_median_def mad_value_def
  percentile_def keep_or_count_def modifiedZScore_def trim_def Let_def
  calculateStatistics_def calculateRange_def estimate_def zeroStats_def zeroRange_def
  removeOutliersIQR_def go_int_def





section \<open>The bounds of the trimming slice\<close>

text \<open>
  With the trim fraction that \<open>NewBlockTimeCalculator\<close> establishes, the bounds of
  \<open>cleaned[trimCount : len(cleaned)-trimCount]\<close> are in range.
\<close>

lemma trim_in_range:
  assumes "0 \<le> p" "p < 1 / 2"
  shows "2 * nat (go_int (real n * p)) \<le> n"
proof -
  have nn: "0 \<le> real n * p" using assms(1) by simp
  have "real_of_int \<lfloor>real n * p\<rfloor> \<le> real n * p" by (rule of_int_floor_le)
  also have "\<dots> \<le> real n * (1 / 2)"
    by (rule mult_left_mono) (use assms(2) in simp_all)
  finally have "2 * real_of_int \<lfloor>real n * p\<rfloor> \<le> real n" by simp
  then have "2 * \<lfloor>real n * p\<rfloor> \<le> int n" by linarith
  then show ?thesis using nn by (simp add: go_int_def)
qed

lemma NewBlockTimeCalculator_TrimPercent:
  "0 \<le> TrimPercent (config (NewBlockTimeCalculator cl cfg))
   \<and> TrimPercent (config (NewBlockTimeCalculator cl cfg)) < 1 / 2"
  by (simp add: NewBlockTimeCalculator_def Let_def)

section \<open>Outlier removal on scenario A\<close>

text \<open>
  On the deltas 5, 5, 6, 6, 6, 7, 7, 100 the median absolute deviation is 1, not 0.5,
  and the mean of the cleaned series is 6, not 40/7.
\<close>

theorem scenario_A_counterexample:
  "mad_value (sort [5, 5, 6, 6, 6, 7, 7, 100]) \<noteq> 1 / 2
   \<and> Mean (calculateStatistics (fst (removeOutliers DefaultConfig [5, 5, 6, 6, 6, 7, 7, 100])))
       \<noteq> 40 / 7"
  by (simp add: stat_defs)

text \<open>
  C4, amended. On the deltas 5, 5, 6, 6, 6, 7, 7, 100 with the default configuration the
  median is 6 and the median absolute deviation is 1; the modified z-score of 100 is
  0.6745 * 94 / 1, above the threshold 3.5; the cleaned series is 5, 5, 6, 6, 6, 7, 7
  with one outlier, and its median and its mean are both 6.
\<close>

theorem scenario_A:
  "mad_median (sort [5, 5, 6, 6, 6, 7, 7, 100]) = 6
   \<and> mad_value (sort [5, 5, 6, 6, 6, 7, 7, 100]) = 1
   \<and> modifiedZScore 6 1 100 = 6745 / 10000 * 94 / 1
   \<and> \<bar>modifiedZScore 6 1 100\<bar> > 35 / 10
   \<and> removeOutliers DefaultConfig [5, 5, 6, 6, 6, 7, 7, 100] = ([5, 5, 6, 6, 6, 7, 7], 1)
   \<and> Median (calculateStatistics [5, 5, 6, 6, 6, 7, 7]) = 6
   \<and> Mean (calculateStatistics [5, 5, 6, 6, 6, 7, 7]) = 42 / 7"
  by (simp add: stat_defs)

section \<open>Range validation\<close>

text \<open>
  C2, amended. When \<open>startHeight > endHeight\<close>, the range fetch returns the
  invalid-range error under every schedule and asks nothing of the node, and
  \<open>CalculateStatsForRange\<close> returns the invalid-range error.
\<close>

theorem invalid_range_no_calls:
  assumes "startHeight > endHeight"
  shows "CosmosSDKClient_GetBlockRange r sched startHeight endHeight
           = Some (Inl (InvalidRange startHeight endHeight), [])
         \<and> CalculateStatsForRange c startHeight endHeight
             = Inl (InvalidRange startHeight endHeight)"
  using assms by (simp add: CosmosSDKClient_GetBlockRange_def CalculateStatsForRange_def)

theorem invalid_range_no_calls_witness:
  "(5::int) > 3
   \<and> CosmosSDKClient_GetBlockRange (node_of chain9) [Main, Answer 5] 5 3
       = Some (Inl (InvalidRange 5 3), [])
   \<and> CalculateStatsForRange calc9 5 3 = Inl (InvalidRange 5 3)"
  using invalid_range_no_calls[of 3 5 "node_of chain9" "[Main, Answer 5]" calc9]
  by simp

text \<open>
  A range that starts below height 1 is not refused: the fetch of the range from 0 to
  0 asks the node for height 0 and returns the node's error.
\<close>

theorem height_below_one_counterexample:
  "(0::int) < 1
   \<and> CosmosSDKClient_GetBlockRange (node_of [0, 5, 10]) (sequential 0 0) 0 0
       = Some (Inl (FailedToGetBlock 0 (RpcError ''height out of range'')), [0])
   \<and> \<not> is_InvalidRange (FailedToGetBlock 0 (RpcError ''height out of range''))"
  by code_simp

section \<open>Sample size\<close>

lemma cfg9: "config calc9 = DefaultConfig\<lparr>SampleSize := 9, MinSampleSize := 8\<rparr>"
  by (simp add: calc9_def NewBlockTimeCalculator_def DefaultConfig_def Let_def)

lemma client9: "BlockTimeCalculator.client calc9 = CosmosSDKClient (node_of chain9)"
  by (simp add: calc9_def NewBlockTimeCalculator_def Let_def)

lemma range9: "GetBlockRange (CosmosSDKClient (node_of chain9)) 1 9 = Inr blocks9"
  unfolding blocks9_def chain9_def by code_simp

lemmas blockTimes_eval = blockTimes_def convertBlocks_def toBlockInfo_def block_at_def
  Sub_def Seconds_def upt_rec[of 1] upt_rec[of 0] numeral_eq_Suc Let_def

lemma bt9: "blockTimes blocks9 = [5, 5, 6, 6, 6, 7, 7, 100]"
  unfolding blocks9_def chain9_def by (simp add: blockTimes_eval)

lemma ne9: "blocks9 \<noteq> []"
  by (simp add: blocks9_def convertBlocks_def)

lemma clean9: "removeOutliers (config calc9) [5, 5, 6, 6, 6, 7, 7, 100] = ([5, 5, 6, 6, 6, 7, 7], 1)"
  unfolding cfg9 by (simp add: stat_defs)

text \<open>
  No sample-size check follows outlier removal: with eight block times, a minimum of
  eight and one outlier removed, the summary of the seven remaining times is returned.
\<close>

theorem no_check_after_cleaning_counterexample:
  "int (length (blockTimes blocks9)) = 8
   \<and> MinSampleSize (config calc9) = 8
   \<and> length (fst (removeOutliers (config calc9) (blockTimes blocks9))) = 7
   \<and> CalculateStatsForRange calc9 1 9
       = Inr (summarize (config calc9) 1 9 blocks9 (blockTimes blocks9))"
proof -
  have m: "MinSampleSize (config calc9) = 8" by (simp add: cfg9)
  show ?thesis
    by (simp add: CalculateStatsForRange_def client9 range9 bt9 m clean9 ne9)
qed

text \<open>
  C3, amended. For a range with \<open>startHeight \<le> endHeight\<close>, \<open>CalculateStatsForRange\<close>
  fails with an insufficient-sample error when the size of the range is below
  \<open>MinSampleSize\<close>, and when the fetch returned a non-empty sequence of blocks whose
  count of positive block times, measured before outlier removal, is below
  \<open>MinSampleSize\<close>.
\<close>

theorem insufficient_sample_before_cleaning:
  assumes "startHeight \<le> endHeight"
    and "endHeight - startHeight + 1 < MinSampleSize (config c)
         \<or> (\<exists>blocks. GetBlockRange (BlockTimeCalculator.client c) startHeight endHeight = Inr blocks
               \<and> blocks \<noteq> []
               \<and> int (length (blockTimes blocks)) < MinSampleSize (config c))"
  shows "\<exists>err. CalculateStatsForRange c startHeight endHeight = Inl err
               \<and> is_InsufficientSample err"
  using assms by (auto simp: CalculateStatsForRange_def Let_def)

lemma cfg9dup: "config calc9dup = DefaultConfig\<lparr>SampleSize := 9, MinSampleSize := 8\<rparr>"
  by (simp add: calc9dup_def NewBlockTimeCalculator_def DefaultConfig_def Let_def)

lemma client9dup: "BlockTimeCalculator.client calc9dup = CosmosSDKClient (node_of chain9dup)"
  by (simp add: calc9dup_def NewBlockTimeCalculator_def Let_def)

lemma range9dup: "GetBlockRange (CosmosSDKClient (node_of chain9dup)) 1 9 = Inr blocks9dup"
  unfolding blocks9dup_def chain9dup_def by code_simp

lemma bt9dup: "blockTimes blocks9dup = [5, 5, 6, 6, 6, 7, 7]"
  unfolding blocks9dup_def chain9dup_def by (simp add: blockTimes_eval)

lemma ne9dup: "blocks9dup \<noteq> []"
  by (simp add: blocks9dup_def convertBlocks_def)

theorem insufficient_sample_before_cleaning_witness:
  "(1::int) \<le> 9
   \<and> GetBlockRange (BlockTimeCalculator.client calc9dup) 1 9 = Inr blocks9dup
   \<and> blocks9dup \<noteq> []
   \<and> int (length (blockTimes blocks9dup)) < MinSampleSize (config calc9dup)
   \<and> CalculateStatsForRange calc9dup 1 9 = Inl (InsufficientValidBlockTimes 7 8)"
proof -
  have m: "MinSampleSize (config calc9dup) = 8" by (simp add: cfg9dup)
  have r: "GetBlockRange (BlockTimeCalculator.client calc9dup) 1 9 = Inr blocks9dup"
    by (simp add: client9dup range9dup)
  have "\<exists>err. CalculateStatsForRange calc9dup 1 9 = Inl err \<and> is_InsufficientSample err"
    using insufficient_sample_before_cleaning[of 1 9 calc9dup] r ne9dup bt9dup m by simp
  moreover have "CalculateStatsForRange calc9dup 1 9 = Inl (InsufficientValidBlockTimes 7 8)"
    by (simp add: CalculateStatsForRange_def r ne9dup bt9dup m)
  ultimately show ?thesis using r ne9dup bt9dup m by simp
qed

section \<open>The predictor\<close>

lemma secondsToDuration_close: "\<bar>real_of_int (secondsToDuration x) - x * 10 ^ 9\<bar> < 1"
  unfolding secondsToDuration_def go_int_def by (auto; linarith)

text \<open>
  C9. \<open>PredictNextBlocks\<close> with \<open>cnt \<le> 0\<close> fails with the invalid-argument error. With
  \<open>cnt > 0\<close>, once the current height \<open>H\<close>, the statistics and the current block have
  been obtained, it returns exactly \<open>cnt\<close> milestones; the \<open>i\<close>-th has height
  \<open>H + i\<close> and the estimated time \<open>now\<close> plus the duration of \<open>i\<close> times the typical
  block time, each computed from \<open>now\<close> and \<open>i\<close> alone. The duration is a whole number
  of nanoseconds, less than one nanosecond away from \<open>i\<close> times the typical time.
\<close>

theorem PredictNextBlocks_milestones:
  "(cnt \<le> 0 \<longrightarrow> PredictNextBlocks p now cnt = Inl CountMustBePositive)
   \<and> (cnt > 0
        \<and> GetLatestBlockHeight (BlockPredictor.client p) = Inr H
        \<and> CalculateStats (calculator p) = Inr stats
        \<and> GetBlockByHeight (BlockPredictor.client p) H = Inr b
      \<longrightarrow> (\<exists>pred. PredictNextBlocks p now cnt = Inr pred
                 \<and> int (length (Predictions pred)) = cnt
                 \<and> (\<forall>i. 1 \<le> i \<and> i \<le> cnt \<longrightarrow>
                       BlockMilestone.Height (Predictions pred ! nat (i - 1)) = H + i
                       \<and> EstimatedTime (Predictions pred ! nat (i - 1))
                           = now + secondsToDuration (real_of_int i * Typical (EstimatedRange stats))
                       \<and> \<bar>real_of_int (EstimatedTime (Predictions pred ! nat (i - 1)) - now)
                            - real_of_int i * Typical (EstimatedRange stats) * 10 ^ 9\<bar> < 1)))"
proof (intro conjI impI)
  assume "cnt \<le> 0"
  then show "PredictNextBlocks p now cnt = Inl CountMustBePositive"
    by (simp add: PredictNextBlocks_def)
next
  assume a: "cnt > 0
        \<and> GetLatestBlockHeight (BlockPredictor.client p) = Inr H
        \<and> CalculateStats (calculator p) = Inr stats
        \<and> GetBlockByHeight (BlockPredictor.client p) H = Inr b"
  let ?pred = "\<lparr>CurrentHeight = H, CurrentTime = now, CurrentBlockAge = Sub now (Time b),
                 Predictions = map (milestone H now stats) [0 ..< nat cnt], Stats = stats\<rparr>"
  have r: "PredictNextBlocks p now cnt = Inr ?pred"
    using a by (simp add: PredictNextBlocks_def)
  have len: "int (length (Predictions ?pred)) = cnt" using a by simp
  have each: "BlockMilestone.Height (Predictions ?pred ! nat (i - 1)) = H + i
       \<and> EstimatedTime (Predictions ?pred ! nat (i - 1))
           = now + secondsToDuration (real_of_int i * Typical (EstimatedRange stats))
       \<and> \<bar>real_of_int (EstimatedTime (Predictions ?pred ! nat (i - 1)) - now)
                            - real_of_int i * Typical (EstimatedRange stats) * 10 ^ 9\<bar> < 1"
    if "1 \<le> i \<and> i \<le> cnt" for i
  proof -
    have lt: "nat (i - 1) < nat cnt" using that by linarith
    have ix: "int (nat (i - 1)) + 1 = i" using that by linarith
    have m: "Predictions ?pred ! nat (i - 1) = milestone H now stats (nat (i - 1))"
      using lt by simp
    show ?thesis
      unfolding m
      using that secondsToDuration_close[of "real_of_int i * Typical (EstimatedRange stats)"]
      by (simp add: milestone_def Let_def ix)
  qed
  show "\<exists>pred. PredictNextBlocks p now cnt = Inr pred
                 \<and> int (length (Predictions pred)) = cnt
                 \<and> (\<forall>i. 1 \<le> i \<and> i \<le> cnt \<longrightarrow>
                       BlockMilestone.Height (Predictions pred ! nat (i - 1)) = H + i
                       \<and> EstimatedTime (Predictions pred ! nat (i - 1))
                           = now + secondsToDuration (real_of_int i * Typical (EstimatedRange stats))
                       \<and> \<bar>real_of_int (EstimatedTime (Predictions pred ! nat (i - 1)) - now)
                            - real_of_int i * Typical (EstimatedRange stats) * 10 ^ 9\<bar> < 1)"
    using r len each by blast
qed

lemma cfgC: "config calcC = DefaultConfig\<lparr>SampleSize := 5, MinSampleSize := 4\<rparr>"
  by (simp add: calcC_def NewBlockTimeCalculator_def DefaultConfig_def Let_def)

lemma latestC: "GetLatestBlockHeight (CosmosSDKClient (steady_node 100 6)) = Inr 100"
  by (simp add: CosmosSDKClient_def CosmosSDKClient_GetLatestBlockHeight_def steady_node_def)

lemma rangeC: "GetBlockRange (CosmosSDKClient (steady_node 100 6)) 96 100 = Inr blocksC"
  unfolding blocksC_def by code_simp

lemma btC: "blockTimes blocksC = [6, 6, 6, 6]"
  unfolding blocksC_def by (simp add: blockTimes_eval)

lemma cleanC: "removeOutliers (config calcC) [6, 6, 6, 6] = ([6, 6, 6, 6], 0)"
  unfolding cfgC by (simp add: stat_defs)

lemma statsC: "CalculateStats calcC = Inr (summarize (config calcC) 96 100 blocksC [6, 6, 6, 6])"
proof -
  have c: "BlockTimeCalculator.client calcC = CosmosSDKClient (steady_node 100 6)"
    by (simp add: calcC_def NewBlockTimeCalculator_def Let_def)
  have ne: "blocksC \<noteq> []"
    by (simp add: blocksC_def convertBlocks_def)
  have m: "MinSampleSize (config calcC) = 4" "CalculatorConfig.SampleSize (config calcC) = 5"
    by (simp_all add: cfgC)
  show ?thesis
    by (simp add: CalculateStats_def c latestC CalculateStatsForRange_def rangeC btC m ne)
qed

lemma typicalC:
  "Typical (EstimatedRange (summarize (config calcC) 96 100 blocksC [6, 6, 6, 6])) = 6"
  by (simp add: summarize_def cleanC) (simp add: stat_defs)

lemma blockC: "\<exists>b. GetBlockByHeight (CosmosSDKClient (steady_node 100 6)) 100 = Inr b"
  by (simp add: CosmosSDKClient_def CosmosSDKClient_GetBlockByHeight_def steady_node_def)

theorem PredictNextBlocks_milestones_witness:
  "\<exists>pred. PredictNextBlocks predC 1000 3 = Inr pred
     \<and> int (length (Predictions pred)) = 3
     \<and> BlockMilestone.Height (Predictions pred ! 0) = 101
     \<and> EstimatedTime (Predictions pred ! 0) = 1000 + 6 * 10 ^ 9
     \<and> BlockMilestone.Height (Predictions pred ! 2) = 103
     \<and> EstimatedTime (Predictions pred ! 2) = 1000 + 18 * 10 ^ 9"
proof -
  obtain b where b: "GetBlockByHeight (BlockPredictor.client predC) 100 = Inr b"
    using blockC by (auto simp: predC_def)
  have l: "GetLatestBlockHeight (BlockPredictor.client predC) = Inr 100"
    by (simp add: predC_def latestC)
  have s: "CalculateStats (calculator predC)
             = Inr (summarize (config calcC) 96 100 blocksC [6, 6, 6, 6])"
    by (simp add: predC_def statsC)
  have "\<exists>pred. PredictNextBlocks predC 1000 3 = Inr pred
          \<and> int (length (Predictions pred)) = 3
          \<and> (\<forall>i. 1 \<le> i \<and> i \<le> 3 \<longrightarrow>
                 BlockMilestone.Height (Predictions pred ! nat (i - 1)) = 100 + i
                 \<and> EstimatedTime (Predictions pred ! nat (i - 1))
                     = 1000 + secondsToDuration (real_of_int i * 6)
                 \<and> \<bar>real_of_int (EstimatedTime (Predictions pred ! nat (i - 1)) - 1000)
                            - real_of_int i * 6 * 10 ^ 9\<bar> < 1)"
    using PredictNextBlocks_milestones[of 3 predC 1000 100
            "summarize (config calcC) 96 100 blocksC [6, 6, 6, 6]" b]
    unfolding typicalC using l s b by simp
  then obtain pred where p: "PredictNextBlocks predC 1000 3 = Inr pred"
    and len: "int (length (Predictions pred)) = 3"
    and each: "\<And>i. 1 \<le> i \<and> i \<le> 3 \<Longrightarrow>
                 BlockMilestone.Height (Predictions pred ! nat (i - 1)) = 100 + i
                 \<and> EstimatedTime (Predictions pred ! nat (i - 1))
                     = 1000 + secondsToDuration (real_of_int i * 6)"
    by blast
  have d1: "secondsToDuration (real_of_int 1 * 6) = 6 * 10 ^ 9"
    by (simp add: secondsToDuration_def go_int_def)
  have d3: "secondsToDuration (real_of_int 3 * 6) = 18 * 10 ^ 9"
    by (simp add: secondsToDuration_def go_int_def)
  from each[of 1] each[of 3] d1 d3
  have "BlockMilestone.Height (Predictions pred ! 0) = 101
     \<and> EstimatedTime (Predictions pred ! 0) = 1000 + 6 * 10 ^ 9
     \<and> BlockMilestone.Height (Predictions pred ! 2) = 103
     \<and> EstimatedTime (Predictions pred ! 2) = 1000 + 18 * 10 ^ 9"
    by simp
  with p len show ?thesis by blast
qed

section \<open>The sort of the range fetch\<close>

lemma length_swap_if_greater [simp]: "length (swap_if_greater i j bs) = length bs"
  by (simp add: swap_if_greater_def)

lemma mset_swap_if_greater:
  "i < length bs \<Longrightarrow> j < length bs \<Longrightarrow> mset (swap_if_greater i j bs) = mset bs"
  by (simp add: swap_if_greater_def mset_swap)

text \<open>The inner loop up to position \<open>b\<close>.\<close>

lemma inner_loop_upto:
  assumes "b \<le> length xs"
  shows "length (fold (swap_if_greater i) [i + 1 ..< b] xs) = length xs
       \<and> mset (fold (swap_if_greater i) [i + 1 ..< b] xs) = mset xs
       \<and> (\<forall>k < i. fold (swap_if_greater i) [i + 1 ..< b] xs ! k = xs ! k)
       \<and> (\<forall>p. i \<le> p \<and> p < length xs \<longrightarrow>
              (\<exists>k. i \<le> k \<and> k < length xs \<and> fold (swap_if_greater i) [i + 1 ..< b] xs ! p = xs ! k))
       \<and> (\<forall>p. i < p \<and> p < b \<longrightarrow>
              tmHeight (fold (swap_if_greater i) [i + 1 ..< b] xs ! i)
                \<le> tmHeight (fold (swap_if_greater i) [i + 1 ..< b] xs ! p))"
  using assms
proof (induction b)
  case 0
  then show ?case by auto
next
  case (Suc b)
  show ?case
  proof (cases "i + 1 \<le> b")
    case False
    then have "[i + 1 ..< Suc b] = []" by simp
    then show ?thesis using False by auto
  next
    case True
    let ?r = "fold (swap_if_greater i) [i + 1 ..< b] xs"
    have IH: "length ?r = length xs" "mset ?r = mset xs"
      "\<forall>k < i. ?r ! k = xs ! k"
      "\<forall>p. i \<le> p \<and> p < length xs \<longrightarrow> (\<exists>k. i \<le> k \<and> k < length xs \<and> ?r ! p = xs ! k)"
      "\<forall>p. i < p \<and> p < b \<longrightarrow> tmHeight (?r ! i) \<le> tmHeight (?r ! p)"
      using Suc by auto
    have b: "b < length xs" "i < b" "i < length xs" using Suc.prems True by auto
    have step: "fold (swap_if_greater i) [i + 1 ..< Suc b] xs = swap_if_greater i b ?r"
      using True by simp
    show ?thesis
    proof (cases "tmHeight (?r ! i) > tmHeight (?r ! b)")
      case False
      then have same: "swap_if_greater i b ?r = ?r" by (simp add: swap_if_greater_def)
      have "\<forall>p. i < p \<and> p < Suc b \<longrightarrow> tmHeight (?r ! i) \<le> tmHeight (?r ! p)"
        using IH(5) False by (auto simp: less_Suc_eq)
      then show ?thesis unfolding step same using IH by simp
    next
      case gt: True
      let ?s = "?r[i := ?r ! b, b := ?r ! i]"
      have sw: "swap_if_greater i b ?r = ?s" using gt by (simp add: swap_if_greater_def)
      have nth: "?s ! p = (if p = b then ?r ! i else if p = i then ?r ! b else ?r ! p)"
        if "p < length xs" for p
        using that b IH(1) by (auto simp: nth_list_update)
      have l: "length ?s = length xs" using IH(1) by simp
      have m: "mset ?s = mset xs" using mset_swap[of b ?r i] b IH(1,2) by simp
      have pre: "\<forall>k < i. ?s ! k = xs ! k" using nth b IH(3) by auto
      have src: "\<forall>p. i \<le> p \<and> p < length xs \<longrightarrow> (\<exists>k. i \<le> k \<and> k < length xs \<and> ?s ! p = xs ! k)"
      proof (intro allI impI)
        fix p assume p: "i \<le> p \<and> p < length xs"
        from IH(4) b obtain ki where ki: "i \<le> ki" "ki < length xs" "?r ! i = xs ! ki" by blast
        from IH(4) b obtain kb where kb: "i \<le> kb" "kb < length xs" "?r ! b = xs ! kb" by (metis less_imp_le)
        from IH(4) p obtain kp where kp: "i \<le> kp" "kp < length xs" "?r ! p = xs ! kp" by blast
        show "\<exists>k. i \<le> k \<and> k < length xs \<and> ?s ! p = xs ! k"
          using nth[of p] p ki kb kp by auto
      qed
      have ord: "\<forall>p. i < p \<and> p < Suc b \<longrightarrow> tmHeight (?s ! i) \<le> tmHeight (?s ! p)"
      proof (intro allI impI)
        fix p assume p: "i < p \<and> p < Suc b"
        then have pl: "p < length xs" using b by simp
        show "tmHeight (?s ! i) \<le> tmHeight (?s ! p)"
        proof (cases "p = b")
          case True
          then show ?thesis using nth[of i] nth[of b] b gt by simp
        next
          case False
          then have "p < b" using p by simp
          then have "tmHeight (?r ! i) \<le> tmHeight (?r ! p)" using IH(5) p by simp
          then show ?thesis using nth[of i] nth[of p] b pl False p gt by simp
        qed
      qed
      show ?thesis unfolding step sw using l m pre src ord by simp
    qed
  qed
qed

lemma sort_inner_props:
  "length (sort_inner i xs) = length xs"
  "mset (sort_inner i xs) = mset xs"
  "k < i \<Longrightarrow> sort_inner i xs ! k = xs ! k"
  "i \<le> p \<Longrightarrow> p < length xs \<Longrightarrow> \<exists>k. i \<le> k \<and> k < length xs \<and> sort_inner i xs ! p = xs ! k"
  "i < p \<Longrightarrow> p < length xs \<Longrightarrow> tmHeight (sort_inner i xs ! i) \<le> tmHeight (sort_inner i xs ! p)"
  using inner_loop_upto[of "length xs" xs i] unfolding sort_inner_def by auto

text \<open>After \<open>m\<close> rounds of the outer loop every position below \<open>m\<close> is in its place.\<close>

lemma outer_loop_upto:
  assumes "m \<le> length xs"
  shows "length (fold sort_inner [0 ..< m] xs) = length xs
       \<and> mset (fold sort_inner [0 ..< m] xs) = mset xs
       \<and> (\<forall>a b. a < m \<and> a < b \<and> b < length xs \<longrightarrow>
              tmHeight (fold sort_inner [0 ..< m] xs ! a) \<le> tmHeight (fold sort_inner [0 ..< m] xs ! b))"
  using assms
proof (induction m)
  case 0
  then show ?case by simp
next
  case (Suc m)
  let ?r = "fold sort_inner [0 ..< m] xs"
  have IH: "length ?r = length xs" "mset ?r = mset xs"
    "\<forall>a b. a < m \<and> a < b \<and> b < length xs \<longrightarrow> tmHeight (?r ! a) \<le> tmHeight (?r ! b)"
    using Suc by auto
  have step: "fold sort_inner [0 ..< Suc m] xs = sort_inner m ?r" by simp
  have ord: "tmHeight (sort_inner m ?r ! a) \<le> tmHeight (sort_inner m ?r ! b)"
    if ab: "a < Suc m" "a < b" "b < length xs" for a b
  proof (cases "a = m")
    case True
    then show ?thesis using sort_inner_props(5)[of m b ?r] ab IH(1) by simp
  next
    case False
    then have am: "a < m" using ab by simp
    have ra: "sort_inner m ?r ! a = ?r ! a" using sort_inner_props(3)[OF am] .
    show ?thesis
    proof (cases "b < m")
      case True
      then show ?thesis using sort_inner_props(3)[OF True, of ?r] ra IH(3) am ab by simp
    next
      case False
      then obtain k where k: "m \<le> k" "k < length ?r" "sort_inner m ?r ! b = ?r ! k"
        using sort_inner_props(4)[of m b ?r] ab IH(1) by auto
      then show ?thesis using ra IH(3) IH(1) am by simp
    qed
  qed
  show ?case unfolding step using IH sort_inner_props(1,2)[of m ?r] ord by simp
qed

lemma mset_sortByHeight: "mset (sortByHeight xs) = mset xs"
  using outer_loop_upto[of "length xs - 1" xs] by (simp add: sortByHeight_def)

lemma length_sortByHeight: "length (sortByHeight xs) = length xs"
  using outer_loop_upto[of "length xs - 1" xs] by (simp add: sortByHeight_def)

lemma sorted_sortByHeight: "sorted (map tmHeight (sortByHeight xs))"
proof -
  let ?r = "sortByHeight xs"
  have o: "\<forall>a b. a < length xs - 1 \<and> a < b \<and> b < length xs \<longrightarrow> tmHeight (?r ! a) \<le> tmHeight (?r ! b)"
    using outer_loop_upto[of "length xs - 1" xs] by (simp add: sortByHeight_def)
  have "tmHeight (?r ! a) \<le> tmHeight (?r ! b)" if "a < b" "b < length ?r" for a b
    using o that by (simp add: length_sortByHeight)
  then show ?thesis
    by (simp add: sorted_iff_nth_mono_less length_sortByHeight)
qed

lemma heights_convertBlocks: "map BlockInfo.Height (convertBlocks bs) = map tmHeight bs"
  by (rule nth_equalityI) (simp_all add: convertBlocks_def toBlockInfo_def Let_def)

section \<open>The concurrent range fetch\<close>

lemma fetched_snoc:
  "fetched r (cs @ [h]) = fetched r cs @ (case Block r h of Inr (Some b) \<Rightarrow> [b] | _ \<Rightarrow> [])"
  by (simp add: fetched_def)

lemma first_error_snoc:
  "first_error r (cs @ [h]) =
     (case first_error r cs of
        Some e \<Rightarrow> Some e
      | None \<Rightarrow> (case Block r h of Inl err \<Rightarrow> Some (FailedToGetBlock h err) | Inr b \<Rightarrow> None))"
  by (auto simp: first_error_def split: list.splits sum.splits)

lemma first_error_None: "first_error r cs = None \<longleftrightarrow> (\<forall>h \<in> set cs. \<not> isl (Block r h))"
proof -
  have "first_error r cs = None \<longleftrightarrow> filter (\<lambda>h. isl (Block r h)) cs = []"
    by (simp add: first_error_def split: list.splits)
  then show ?thesis by (simp add: filter_empty_conv)
qed

lemma fetch_inv_init:
  "startHeight \<le> endHeight \<Longrightarrow> fetch_inv r startHeight endHeight (init_state startHeight)"
  by (simp add: fetch_inv_def running_inv_def init_state_def join_count_def first_error_def fetched_def)

lemma fetch_inv_cancel:
  "fetch_inv r st en s \<Longrightarrow> fetch_inv r st en (s\<lparr>ctxDone := True\<rparr>)"
  by (simp add: fetch_inv_def running_inv_def split: pc.splits)

lemma Suc_length_remove1: "x \<in> set xs \<Longrightarrow> Suc (length (remove1 x xs)) = length xs"
  by (induction xs) auto

lemma fetch_inv_exit:
  assumes "fetch_inv r st en s" "exit_step h s = Some s'"
  shows "fetch_inv r st en s'"
proof -
  from assms(2) have h: "h \<in> set (exiting s)" "semaphore s > 0"
    and s': "s' = s\<lparr>exiting := remove1 h (exiting s), semaphore := semaphore s - 1\<rparr>"
    by (auto simp: exit_step_def split: if_splits)
  have len: "Suc (length (remove1 h (exiting s))) = length (exiting s)"
    using h(1) by (rule Suc_length_remove1)
  show ?thesis
    using assms(1) h(2) len unfolding s'
    by (cases "pc s") (auto simp: fetch_inv_def running_inv_def)
qed

lemma deliver_fields:
  "pc (deliver h a s) = pc s" "height (deliver h a s) = height s"
  "semaphore (deliver h a s) = semaphore s" "started (deliver h a s) = started s"
  "exiting (deliver h a s) = exiting s" "calls (deliver h a s) = calls s"
  "ctxDone (deliver h a s) = ctxDone s"
  by (auto simp: deliver_def split: sum.splits option.splits)

lemma deliver_chans:
  assumes "errChan s = first_error r cs" "blockChan s = fetched r cs"
  shows "errChan (deliver h (Block r h) s) = first_error r (cs @ [h])"
    and "blockChan (deliver h (Block r h) s) = fetched r (cs @ [h])"
  using assms
  by (auto simp: deliver_def first_error_snoc fetched_snoc split: sum.splits option.splits)

lemma fetch_inv_answer:
  assumes "fetch_inv r st en s" "answer_step r h s = Some s'"
  shows "fetch_inv r st en s'"
proof -
  let ?d = "deliver h (Block r h) s"
  from assms(2) have h: "h \<in> set (started s)"
    and s': "s' = ?d\<lparr>started := remove1 h (started s), exiting := exiting s @ [h],
                     calls := calls s @ [h]\<rparr>"
    by (auto simp: answer_step_def split: if_splits)
  have pc': "pc s' = pc s" unfolding s' by (simp add: deliver_fields)
  show ?thesis
  proof (cases "\<exists>res. pc s = Returned res")
    case True
    then show ?thesis using assms(1) pc' by (auto simp: fetch_inv_def)
  next
    case False
    then have inv: "running_inv r st en s"
      using assms(1) by (cases "pc s") (auto simp: fetch_inv_def)
    have len: "Suc (length (remove1 h (started s))) = length (started s)"
      using h by (rule Suc_length_remove1)
    have d: "distinct (started s)" "h \<notin> set (calls s)" "distinct (calls s)"
      "set (started s) \<inter> set (calls s) = {}"
      using inv h by (auto simp: running_inv_def)
    have d': "distinct (remove1 h (started s) @ calls s @ [h])"
      using d by (auto simp: set_remove1_eq)
    have st': "set (remove1 h (started s)) \<union> set (calls s @ [h]) = set (started s) \<union> set (calls s)"
      using d h by (auto simp: set_remove1_eq)
    have ch: "errChan ?d = first_error r (calls s @ [h])" "blockChan ?d = fetched r (calls s @ [h])"
      using deliver_chans[of s r "calls s" h] inv by (simp_all add: running_inv_def)
    have "running_inv r st en s'"
      unfolding running_inv_def s' using inv len d' st' ch
      by (simp add: deliver_fields running_inv_def)
    then show ?thesis using False pc' by (cases "pc s") (auto simp: fetch_inv_def)
  qed
qed

lemma fetch_inv_main:
  assumes "fetch_inv r st en s" "main_step en s = Some s'"
  shows "fetch_inv r st en s'"
proof (cases "pc s")
  case LoopHead
  then have inv: "running_inv r st en s" using assms(1) by (simp add: fetch_inv_def)
  show ?thesis
  proof (cases "height s \<le> en")
    case True
    then have "s' = (if ctxDone s then s\<lparr>pc := Returned (Inl ContextErr)\<rparr> else s\<lparr>pc := Acquire\<rparr>)"
      using assms(2) LoopHead by (auto simp: main_step_def split: if_splits)
    then show ?thesis using inv LoopHead True
      by (auto simp: fetch_inv_def running_inv_def returned_ok_def join_count_def)
  next
    case False
    then have "s' = s\<lparr>pc := Join 0\<rparr>" using assms(2) LoopHead by (simp add: main_step_def)
    then show ?thesis using inv LoopHead False
      by (auto simp: fetch_inv_def running_inv_def join_count_def)
  qed
next
  case Acquire
  then have inv: "running_inv r st en s" using assms(1) by (simp add: fetch_inv_def)
  from assms(2) Acquire have lt: "semaphore s < maxConcurrent"
    and s': "s' = s\<lparr>semaphore := semaphore s + 1, started := started s @ [height s],
                    height := height s + 1, pc := LoopHead\<rparr>"
    by (auto simp: main_step_def split: if_splits)
  have new: "height s \<notin> set (started s)" "height s \<notin> set (calls s)"
    using inv by (auto simp: running_inv_def)
  have rng: "insert (height s) {st ..< height s} = {st ..< height s + 1}"
    using inv by (auto simp: running_inv_def)
  have "running_inv r st en s'"
    unfolding s' using inv Acquire lt new rng
    by (auto simp: running_inv_def join_count_def)
  then show ?thesis by (simp add: fetch_inv_def s')
next
  case (Join i)
  then have inv: "running_inv r st en s" using assms(1) by (simp add: fetch_inv_def)
  show ?thesis
  proof (cases "i < maxConcurrent")
    case True
    then have "semaphore s < maxConcurrent"
      and s': "s' = s\<lparr>semaphore := semaphore s + 1, pc := Join (i + 1)\<rparr>"
      using assms(2) Join by (auto simp: main_step_def split: if_splits)
    then have "running_inv r st en s'"
      using inv Join True by (auto simp: running_inv_def join_count_def)
    then show ?thesis by (simp add: fetch_inv_def s')
  next
    case False
    then have s': "s' = s\<lparr>pc := Returned (finish s)\<rparr>"
      using assms(2) Join by (simp add: main_step_def)
    have "i = maxConcurrent" using inv Join False by (auto simp: running_inv_def)
    then have none: "started s = []"
      using inv Join by (auto simp: running_inv_def join_count_def)
    have "distinct (calls s)" "set (calls s) = {st .. en}"
      using inv Join none by (auto simp: running_inv_def)
    moreover have "errChan s = first_error r (calls s)" "blockChan s = fetched r (calls s)"
      using inv by (simp_all add: running_inv_def)
    then have "finish s = outcome r (calls s)"
      by (simp add: finish_def outcome_def split: option.splits)
    ultimately have "returned_ok r st en (finish s)"
      unfolding returned_ok_def by blast
    then show ?thesis by (simp add: fetch_inv_def s')
  qed
next
  case (Returned res)
  then show ?thesis using assms(2) by (simp add: main_step_def)
qed

lemma fetch_inv_step:
  assumes "fetch_inv r st en s" "step r en ev s = Some s'"
  shows "fetch_inv r st en s'"
  using assms
  by (cases ev) (auto intro: fetch_inv_main fetch_inv_cancel fetch_inv_answer fetch_inv_exit)

lemma fetch_inv_exec:
  "fetch_inv r st en s \<Longrightarrow> exec r en evs s = Some s' \<Longrightarrow> fetch_inv r st en s'"
proof (induction evs arbitrary: s)
  case Nil
  then show ?case by simp
next
  case (Cons ev evs)
  then show ?case
    by (auto split: option.splits dest: fetch_inv_step)
qed

lemma GetBlockRange_returned_ok:
  assumes "startHeight \<le> endHeight"
    and "CosmosSDKClient_GetBlockRange r sched startHeight endHeight = Some (res, cs)"
  shows "returned_ok r startHeight endHeight res"
proof -
  from assms obtain s where e: "exec r endHeight sched (init_state startHeight) = Some s"
    and p: "pc s = Returned res"
    by (auto simp: CosmosSDKClient_GetBlockRange_def split: option.splits pc.splits)
  have "fetch_inv r startHeight endHeight s"
    using fetch_inv_exec[OF fetch_inv_init[OF assms(1)] e] .
  then show ?thesis using p by (simp add: fetch_inv_def)
qed

lemma exec_append:
  "exec r en (xs @ ys) s = (case exec r en xs s of None \<Rightarrow> None | Some s' \<Rightarrow> exec r en ys s')"
  by (induction xs arbitrary: s) (auto split: option.splits)

lemma sequential_round:
  assumes "idle h s" "h \<le> en"
  shows "\<exists>s'. exec r en [Main, Main, Answer h, Exit h] s = Some s' \<and> idle (h + 1) s'"
  using assms
  by (simp add: idle_def main_step_def answer_step_def exit_step_def deliver_fields
        maxConcurrent_def)

lemma sequential_rounds:
  assumes "idle h s" "h \<le> en + 1"
  shows "\<exists>s'. exec r en (concat (map (\<lambda>h. [Main, Main, Answer h, Exit h]) [h .. en])) s = Some s'
              \<and> idle (en + 1) s'"
  using assms
proof (induction "nat (en + 1 - h)" arbitrary: h s)
  case 0
  then have "h = en + 1" by simp
  then show ?case using 0 by simp
next
  case (Suc n)
  then have le: "h \<le> en" by linarith
  then have u: "[h .. en] = h # [h + 1 .. en]" by (simp add: upto_rec1)
  from sequential_round[OF Suc.prems(1) le] obtain s1
    where s1: "exec r en [Main, Main, Answer h, Exit h] s = Some s1" "idle (h + 1) s1" by blast
  have "n = nat (en + 1 - (h + 1))" using Suc.hyps(2) by linarith
  from Suc.hyps(1)[OF this s1(2)] le obtain s2
    where s2: "exec r en (concat (map (\<lambda>h. [Main, Main, Answer h, Exit h]) [h + 1 .. en])) s1 = Some s2"
      "idle (en + 1) s2" by auto
  have "exec r en (concat (map (\<lambda>h. [Main, Main, Answer h, Exit h]) [h .. en])) s
          = exec r en ([Main, Main, Answer h, Exit h]
                @ concat (map (\<lambda>h. [Main, Main, Answer h, Exit h]) [h + 1 .. en])) s"
    unfolding u by simp
  also have "\<dots> = Some s2"
    unfolding exec_append s1(1) using s2(1) by simp
  finally show ?case using s2(2) by blast
qed

lemma sequential_join:
  assumes "idle (en + 1) s"
  shows "\<exists>s' res. exec r en (replicate (maxConcurrent + 2) Main) s = Some s' \<and> pc s' = Returned res"
  using assms
  by (simp add: idle_def main_step_def maxConcurrent_def numeral_eq_Suc)

lemma sequential_returns:
  "\<exists>res cs. CosmosSDKClient_GetBlockRange r (sequential startHeight endHeight) startHeight endHeight
             = Some (res, cs)"
proof (cases "startHeight > endHeight")
  case True
  then show ?thesis by (simp add: CosmosSDKClient_GetBlockRange_def)
next
  case False
  have i: "idle startHeight (init_state startHeight)" by (simp add: idle_def init_state_def)
  from sequential_rounds[OF i, of endHeight r] False obtain s1
    where s1: "exec r endHeight (concat (map (\<lambda>h. [Main, Main, Answer h, Exit h])
                 [startHeight .. endHeight])) (init_state startHeight) = Some s1"
      "idle (endHeight + 1) s1" by auto
  from sequential_join[OF s1(2), of r] obtain s2 res
    where s2: "exec r endHeight (replicate (maxConcurrent + 2) Main) s1 = Some s2"
      "pc s2 = Returned res" by blast
  have "exec r endHeight (sequential startHeight endHeight) (init_state startHeight) = Some s2"
    unfolding sequential_def exec_append s1(1) using s2(1) by simp
  then show ?thesis using False s2(2) by (simp add: CosmosSDKClient_GetBlockRange_def)
qed

lemma mset_fetched_sum:
  "mset (fetched r cs)
     = (\<Sum>h \<in># mset cs. mset (case Block r h of Inr (Some b) \<Rightarrow> [b] | _ \<Rightarrow> []))"
  by (induction cs) (simp_all add: fetched_def)

lemma mset_fetched: "mset cs = mset ds \<Longrightarrow> mset (fetched r cs) = mset (fetched r ds)"
  by (simp add: mset_fetched_sum)

text \<open>
  An error of the node fails the whole fetch: if \<open>client.Block\<close> returns an error for at
  least one height of the range, every run of the range fetch that returns, under any
  schedule, returns an error and no block sequence, and a calculator whose client
  returned that value returns an error and no summary. The sequential schedule is a run
  that returns.
\<close>

lemma rpc_error_fails_fast:
  assumes "startHeight \<le> h" "h \<le> endHeight" "isl (Block r h)"
    and "CosmosSDKClient_GetBlockRange r sched startHeight endHeight = Some (res, cs)"
  shows "isl res
         \<and> (GetBlockRange (BlockTimeCalculator.client c) startHeight endHeight = res
              \<longrightarrow> isl (CalculateStatsForRange c startHeight endHeight))
         \<and> (\<exists>res' cs'. CosmosSDKClient_GetBlockRange r (sequential startHeight endHeight)
                          startHeight endHeight = Some (res', cs'))"
proof -
  have le: "startHeight \<le> endHeight" using assms(1,2) by simp
  have ok: "returned_ok r startHeight endHeight res"
    using GetBlockRange_returned_ok[OF le assms(4)] .
  have res: "isl res"
  proof (cases "res = Inl ContextErr")
    case True
    then show ?thesis by simp
  next
    case False
    then obtain cs' where cs': "set cs' = {startHeight .. endHeight}" "res = outcome r cs'"
      using ok by (auto simp: returned_ok_def)
    have "h \<in> set cs'" using cs'(1) assms(1,2) by simp
    then have "first_error r cs' \<noteq> None" using assms(3) by (auto simp: first_error_None)
    then show ?thesis using cs'(2) by (auto simp: outcome_def)
  qed
  moreover have "isl (CalculateStatsForRange c startHeight endHeight)"
    if "GetBlockRange (BlockTimeCalculator.client c) startHeight endHeight = res"
    using that res by (auto simp: CalculateStatsForRange_def Let_def split: sum.splits)
  ultimately show ?thesis
    using sequential_returns[of r startHeight endHeight] by blast
qed

text \<open>
  C5. Whatever the schedule, and so whatever the order in which the answers arrive, the
  block sequence returned by the range fetch is sorted ascending by height, and its
  heights are those of the blocks the node delivered for the range.
\<close>

theorem fetch_sorted:
  assumes "CosmosSDKClient_GetBlockRange r sched startHeight endHeight = Some (Inr blocks, cs)"
  shows "sorted (map BlockInfo.Height blocks)
         \<and> mset (map BlockInfo.Height blocks)
             = mset (map tmHeight (fetched r [startHeight .. endHeight]))"
proof -
  have le: "startHeight \<le> endHeight"
    using assms by (auto simp: CosmosSDKClient_GetBlockRange_def split: if_splits)
  have "returned_ok r startHeight endHeight (Inr blocks)"
    using GetBlockRange_returned_ok[OF le assms] .
  then obtain cs' where cs': "distinct cs'" "set cs' = {startHeight .. endHeight}"
    "Inr blocks = outcome r cs'"
    by (auto simp: returned_ok_def)
  then have b: "blocks = convertBlocks (sortByHeight (fetched r cs'))"
    by (auto simp: outcome_def split: option.splits)
  have "mset cs' = mset [startHeight .. endHeight]"
    using cs'(1,2) by (simp add: set_eq_iff_mset_eq_distinct[symmetric])
  then have m: "mset (fetched r cs') = mset (fetched r [startHeight .. endHeight])"
    by (rule mset_fetched)
  have "mset (map tmHeight (sortByHeight (fetched r cs')))
          = image_mset tmHeight (mset (fetched r cs'))"
    by (simp add: mset_sortByHeight)
  then show ?thesis
    unfolding b heights_convertBlocks using sorted_sortByHeight m by simp
qed

lemma run4: "CosmosSDKClient_GetBlockRange (node_of [0, 5, 10]) out_of_order4 1 4
   = Some (Inl (FailedToGetBlock 4 (RpcError ''height out of range'')), [4, 2, 1, 3])"
  unfolding out_of_order4_def by code_simp

lemma rangeF: "GetBlockRange (BlockTimeCalculator.client calcF) 1 4
   = Inl (FailedToGetBlock 4 (RpcError ''height out of range''))"
  unfolding calcF_def by code_simp

lemma statsF: "CalculateStatsForRange calcF 1 4
    = Inl (FailedToGetBlockRange (FailedToGetBlock 4 (RpcError ''height out of range'')))"
proof -
  have m: "MinSampleSize (config calcF) = 3"
    by (simp add: calcF_def NewBlockTimeCalculator_def DefaultConfig_def Let_def)
  show ?thesis by (simp add: CalculateStatsForRange_def m rangeF)
qed

lemma rpc_error_fails_fast_example:
  "(1::int) \<le> 4 \<and> isl (Block (node_of [0, 5, 10]) 4)
   \<and> CosmosSDKClient_GetBlockRange (node_of [0, 5, 10]) out_of_order4 1 4
       = Some (Inl (FailedToGetBlock 4 (RpcError ''height out of range'')), [4, 2, 1, 3])
   \<and> GetBlockRange (BlockTimeCalculator.client calcF) 1 4
       = Inl (FailedToGetBlock 4 (RpcError ''height out of range''))
   \<and> isl (CalculateStatsForRange calcF 1 4)"
proof -
  have f: "isl (Block (node_of [0, 5, 10]) 4)" by (simp add: node_of_def)
  show ?thesis
    using rpc_error_fails_fast[of 1 4 4 "node_of [0, 5, 10]" out_of_order4
            "Inl (FailedToGetBlock 4 (RpcError ''height out of range''))" "[4, 2, 1, 3]" calcF]
      f run4 rangeF
    by simp
qed

lemma run3: "CosmosSDKClient_GetBlockRange (node_of [0, 5, 10]) out_of_order3 1 3
   = Some (Inr blocks3, [3, 1, 2])"
  unfolding out_of_order3_def blocks3_def by code_simp

lemma heights3: "map BlockInfo.Height blocks3 = [1, 2, 3]"
  unfolding blocks3_def by code_simp

theorem fetch_sorted_witness:
  "CosmosSDKClient_GetBlockRange (node_of [0, 5, 10]) out_of_order3 1 3 = Some (Inr blocks3, [3, 1, 2])
   \<and> map BlockInfo.Height blocks3 = [1, 2, 3]
   \<and> sorted (map BlockInfo.Height blocks3)"
  using fetch_sorted[OF run3] run3 heights3 by simp

subsection \<open>A nil result is skipped\<close>

lemma cfgGap: "config calcGap = DefaultConfig\<lparr>SampleSize := 5, MinSampleSize := 3\<rparr>"
  by (simp add: calcGap_def NewBlockTimeCalculator_def DefaultConfig_def Let_def)

lemma clientGap: "BlockTimeCalculator.client calcGap = CosmosSDKClient gap_node"
  by (simp add: calcGap_def NewBlockTimeCalculator_def Let_def)

lemma runGap:
  "CosmosSDKClient_GetBlockRange gap_node (sequential 1 5) 1 5 = Some (Inr blocksGap, [1, 2, 3, 4, 5])"
  unfolding blocksGap_def by code_simp

lemma rangeGap: "GetBlockRange (CosmosSDKClient gap_node) 1 5 = Inr blocksGap"
  unfolding blocksGap_def by code_simp

lemma heightsGap: "map BlockInfo.Height blocksGap = [1, 2, 4, 5]"
  unfolding blocksGap_def by code_simp

lemma btGap: "blockTimes blocksGap = [6, 12, 6]"
  unfolding blocksGap_def by (simp add: blockTimes_eval)

lemma neGap: "blocksGap \<noteq> []"
  by (simp add: blocksGap_def convertBlocks_def)

text \<open>
  C1 does not hold of the code for a nil result. A height that the node answers with a
  nil block and no error is a failed height: \<open>GetBlockByHeight\<close> returns an error for
  it. \<open>GetBlockRange\<close> skips it: on the range from 1 to 5 it asks for all five heights,
  returns the blocks of heights 1, 2, 4 and 5 with no error, and
  \<open>CalculateStatsForRange\<close> returns a summary of the three block times 6, 12 and 6
  computed from that incomplete sample.
\<close>

theorem nil_block_partial_result:
  "Block gap_node 3 = Inr None
   \<and> CosmosSDKClient_GetBlockByHeight gap_node 3 = Inl (NilBlockResult 3)
   \<and> CosmosSDKClient_GetBlockRange gap_node (sequential 1 5) 1 5
       = Some (Inr blocksGap, [1, 2, 3, 4, 5])
   \<and> map BlockInfo.Height blocksGap = [1, 2, 4, 5]
   \<and> blockTimes blocksGap = [6, 12, 6]
   \<and> CalculateStatsForRange calcGap 1 5
       = Inr (summarize (config calcGap) 1 5 blocksGap [6, 12, 6])"
proof -
  have m: "MinSampleSize (config calcGap) = 3" by (simp add: cfgGap)
  have a: "Block gap_node 3 = Inr None" by (simp add: gap_node_def)
  have b: "CosmosSDKClient_GetBlockByHeight gap_node 3 = Inl (NilBlockResult 3)"
    by (simp add: CosmosSDKClient_GetBlockByHeight_def a)
  have s: "CalculateStatsForRange calcGap 1 5
       = Inr (summarize (config calcGap) 1 5 blocksGap [6, 12, 6])"
    by (simp add: CalculateStatsForRange_def clientGap rangeGap btGap m neGap)
  show ?thesis using a b runGap heightsGap btGap s by simp
qed

section \<open>The input slice is left unchanged\<close>

lemma frame_refl: "frame h h"
  by (simp add: frame_def)

lemma frame_update: "frame h0 h \<Longrightarrow> length h0 \<le> a \<Longrightarrow> frame h0 (h[a := x])"
  by (simp add: frame_def)

lemma frame_store: "frame h0 h \<Longrightarrow> length h0 \<le> base s \<Longrightarrow> frame h0 (store h s vs)"
  by (simp add: store_def frame_update)

lemma frame_set_at: "frame h0 h \<Longrightarrow> length h0 \<le> base s \<Longrightarrow> frame h0 (set_at h s i v)"
  by (simp add: set_at_def frame_update)

lemma frame_make:
  assumes "frame h0 h" "go_make h n c = (h', s)"
  shows "frame h0 h'" "length h0 \<le> base s" "len s = n" "cap s = c"
  using assms by (auto simp: go_make_def frame_def)

lemma frame_append:
  assumes "frame h0 h" "fresh h0 s" "go_append grow h s v = (h', s')"
  shows "frame h0 h'" "fresh h0 s'"
proof -
  show "frame h0 h'"
  proof (cases "len s < cap s")
    case True
    then have "length h0 \<le> base s" using assms(2) by (auto simp: fresh_def)
    then show ?thesis using assms(1,3) True by (auto simp: go_append_def frame_set_at)
  next
    case False
    then show ?thesis using assms(1,3) by (auto simp: go_append_def Let_def frame_def)
  qed
  show "fresh h0 s'"
    using assms by (auto simp: go_append_def Let_def fresh_def frame_def split: if_splits)
qed

lemma fold_invariant:
  assumes "P st" "\<And>x st. P st \<Longrightarrow> P (f x st)"
  shows "P (fold f xs st)"
  using assms(1) by (induction xs arbitrary: st) (simp_all add: assms(2))

lemma frame_keep_step:
  assumes "frame h0 h" "fresh h0 cleaned" "h_keep_step grow keep src i (h, cleaned, n) = (h', cleaned', n')"
  shows "frame h0 h'" "fresh h0 cleaned'"
  using assms
  by (auto simp: h_keep_step_def Let_def split: if_splits prod.splits dest: frame_append)

lemma frame_keep_or_count:
  assumes "frame h0 h" "fresh h0 cleaned" "h_keep_or_count grow keep src (h, cleaned, n) = (h', cleaned', n')"
  shows "frame h0 h'" "fresh h0 cleaned'"
proof -
  let ?P = "\<lambda>st. case st of (h, cleaned, n) \<Rightarrow> frame h0 h \<and> fresh h0 cleaned"
  have "?P (h_keep_or_count grow keep src (h, cleaned, n))"
    unfolding h_keep_or_count_def
  proof (rule fold_invariant)
    show "?P (h, cleaned, n)" using assms(1,2) by simp
  next
    fix i :: nat and st :: "heap \<times> slice \<times> int"
    assume p: "?P st"
    obtain a b c where st: "st = (a, b, c)" by (metis prod_cases3)
    obtain a' b' c' where st': "h_keep_step grow keep src i (a, b, c) = (a', b', c')"
      by (metis prod_cases3)
    show "?P (h_keep_step grow keep src i st)"
      using frame_keep_step[OF _ _ st'] p st st' by simp
  qed
  then show "frame h0 h'" "fresh h0 cleaned'" using assms(3) by simp_all
qed

lemma frame_removeOutliersIQR:
  assumes "frame h0 h"
  shows "frame h0 (fst (h_removeOutliersIQR grow c h srt))"
proof -
  obtain h1 cleaned where m: "go_make h 0 (len srt) = (h1, cleaned)" by (cases "go_make h 0 (len srt)")
  have f1: "frame h0 h1" "fresh h0 cleaned"
    using frame_make[OF assms m] by (simp_all add: fresh_def)
  obtain h' cl' n' where k: "h_removeOutliersIQR grow c h srt = (h', cl', n')"
    by (cases "h_removeOutliersIQR grow c h srt")
  then have "frame h0 h'"
    using frame_keep_or_count(1)[OF f1] m by (auto simp: h_removeOutliersIQR_def Let_def)
  then show ?thesis using k by simp
qed

lemma frame_deviations:
  assumes "frame h0 h" "length h0 \<le> base deviations"
  shows "frame h0 (h_deviations h deviations srt median)"
  unfolding h_deviations_def
  by (rule fold_invariant) (simp_all add: assms frame_set_at)

lemma frame_trim:
  assumes "frame h0 h" "fresh h0 cleaned"
  shows "frame h0 (fst (h_trim c (h, cleaned, n)))"
proof (cases "len cleaned > 10")
  case True
  then have "length h0 \<le> base cleaned" using assms(2) by (auto simp: fresh_def)
  then show ?thesis using assms(1)
    by (simp add: h_trim_def Let_def sort_Float64s_def frame_store)
next
  case False
  then show ?thesis using assms(1) by (simp add: h_trim_def)
qed

lemma frame_removeOutliers: "frame h (fst (h_removeOutliers grow c h tms))"
proof (cases "len tms \<le> 3")
  case True
  then show ?thesis by (simp add: h_removeOutliers_def frame_refl)
next
  case False
  obtain h1 srt where m1: "go_make h (len tms) (len tms) = (h1, srt)"
    by (cases "go_make h (len tms) (len tms)")
  have f1: "frame h h1" "length h \<le> base srt" using frame_make[OF frame_refl m1] by simp_all
  define h3 where "h3 = sort_Float64s (go_copy h1 srt tms) srt"
  have f3: "frame h h3"
    unfolding h3_def sort_Float64s_def go_copy_def using f1 by (simp add: frame_store)
  show ?thesis
  proof (cases "UseMedianAbsolute c")
    case iqr: False
    then show ?thesis
      using False m1 frame_removeOutliersIQR[OF f3]
      by (simp add: h_removeOutliers_def Let_def h3_def)
  next
    case mad: True
    define median where "median = percentile (content h3 srt) (1 / 2)"
    obtain h4 deviations where m4: "go_make h3 (len srt) (len srt) = (h4, deviations)"
      by (cases "go_make h3 (len srt) (len srt)")
    have f4: "frame h h4" "length h \<le> base deviations" using frame_make[OF f3 m4] by simp_all
    define h6 where "h6 = sort_Float64s (h_deviations h4 deviations srt median) deviations"
    have f6: "frame h h6"
      unfolding h6_def sort_Float64s_def using frame_deviations[OF f4] f4(2)
      by (simp add: frame_store)
    define madv where "madv = percentile (content h6 deviations) (1 / 2)"
    have unfold: "h_removeOutliers grow c h tms =
        (if madv = 0 then h_removeOutliersIQR grow c h6 srt
         else h_trim c (h_keep_or_count grow
                          (\<lambda>v. \<bar>modifiedZScore median madv v\<bar> \<le> 35 / 10) tms (h6, nil_slice, 0)))"
      using False mad m1 m4
      by (simp add: h_removeOutliers_def Let_def h3_def[symmetric] median_def[symmetric]
            h6_def[symmetric] madv_def[symmetric])
    show ?thesis
    proof (cases "madv = 0")
      case True
      then show ?thesis unfolding unfold using frame_removeOutliersIQR[OF f6] by simp
    next
      case False
      obtain h7 cl n where k: "h_keep_or_count grow
                          (\<lambda>v. \<bar>modifiedZScore median madv v\<bar> \<le> 35 / 10) tms (h6, nil_slice, 0) = (h7, cl, n)"
        by (metis prod_cases3)
      have "fresh h nil_slice" by (simp add: fresh_def nil_slice_def)
      from frame_keep_or_count[OF f6 this k] have "frame h h7" "fresh h cl" .
      then show ?thesis unfolding unfold using False k frame_trim[of h h7 cl c n] by simp
    qed
  qed
qed

lemma frame_calculateStatistics: "frame h (fst (h_calculateStatistics h tms))"
proof (cases "len tms = 0")
  case True
  then show ?thesis by (simp add: h_calculateStatistics_def frame_refl)
next
  case False
  obtain h1 srt where m1: "go_make h (len tms) (len tms) = (h1, srt)"
    by (cases "go_make h (len tms) (len tms)")
  have f1: "frame h h1" "length h \<le> base srt" using frame_make[OF frame_refl m1] by simp_all
  have "frame h (sort_Float64s (go_copy h1 srt tms) srt)"
    unfolding sort_Float64s_def go_copy_def using f1 by (simp add: frame_store)
  then show ?thesis using False m1 by (simp add: h_calculateStatistics_def Let_def)
qed

lemma frame_content: "frame h h' \<Longrightarrow> base s < length h \<Longrightarrow> content h' s = content h s"
  by (metis content_def frame_def nth_take)

text \<open>The functions on slices compute what the functions on lists compute.\<close>

lemma keep_or_count_fold:
  "fold (\<lambda>v (cleaned, outlierCount).
             if keep v then (cleaned @ [v], outlierCount) else (cleaned, outlierCount + 1))
        vs (acc, n)
   = (acc @ filter keep vs, n + int (length (filter (\<lambda>v. \<not> keep v) vs)))"
  by (induction vs arbitrary: acc n) auto

lemma keep_or_count_filter:
  "keep_or_count keep vs = (filter keep vs, int (length (filter (\<lambda>v. \<not> keep v) vs)))"
  unfolding keep_or_count_def by (simp add: keep_or_count_fold)

lemma content_length: "valid_slice h s \<Longrightarrow> length (content h s) = len s"
  by (auto simp: valid_slice_def content_def)

lemma get_content: "valid_slice h s \<Longrightarrow> i < len s \<Longrightarrow> get h s i = content h s ! i"
  by (auto simp: valid_slice_def content_def get_def)

lemma frame_nth: "frame h h' \<Longrightarrow> a < length h \<Longrightarrow> h' ! a = h ! a"
  unfolding frame_def using nth_take[of a "length h" h'] by simp

lemma frame_valid: "frame h h' \<Longrightarrow> valid_slice h s \<Longrightarrow> valid_slice h' s"
  using frame_nth[of h h' "base s"] by (simp add: valid_slice_def frame_def)

lemma frame_trans:
  assumes "frame h0 h1" "frame h1 h2"
  shows "frame h0 h2"
proof -
  have l: "length h0 \<le> length h1" "length h1 \<le> length h2"
    and t1: "take (length h0) h1 = h0" and t2: "take (length h1) h2 = h1"
    using assms by (simp_all add: frame_def)
  have "take (length h0) (take (length h1) h2) = take (length h0) h2"
    using l(1) by (simp add: min_def)
  then have "take (length h0) h2 = h0" using t1 t2 by simp
  then show ?thesis using l by (simp add: frame_def)
qed

lemma content_store:
  assumes "valid_slice h s" "length vs = len s"
  shows "content (store h s vs) s = vs" "valid_slice (store h s vs) s"
proof -
  let ?a = "h ! base s"
  have b: "base s < length h" and o: "off s + len s \<le> length ?a" "off s \<le> length ?a"
    and lc: "off s + cap s \<le> length ?a" "len s \<le> cap s"
    using assms(1) by (auto simp: valid_slice_def)
  have n: "store h s vs ! base s = take (off s) ?a @ vs @ drop (off s + len s) ?a"
    using b assms(2) by (simp add: store_def)
  have lt: "length (take (off s) ?a) = off s" using o(2) by simp
  show "content (store h s vs) s = vs"
    unfolding content_def n using lt assms(2) by simp
  have "length (store h s vs ! base s) = length ?a"
    unfolding n using o assms(2) by simp
  then show "valid_slice (store h s vs) s"
    using b lc by (simp add: valid_slice_def store_def)
qed

lemma sorted_copy:
  assumes "valid_slice h tms" "go_make h (len tms) (len tms) = (h1, srt)"
  shows "content (sort_Float64s (go_copy h1 srt tms) srt) srt = sort (content h tms)"
    and "valid_slice (sort_Float64s (go_copy h1 srt tms) srt) srt"
    and "len srt = len tms"
proof -
  have f1: "frame h h1" and s: "base srt = length h" "off srt = 0" "len srt = len tms" "cap srt = len tms"
    and v1: "valid_slice h1 srt"
    using assms(2) by (auto simp: go_make_def frame_def valid_slice_def)
  have c1: "content h1 tms = content h tms"
    using frame_content[OF f1] assms(1) by (simp add: valid_slice_def)
  let ?h2 = "go_copy h1 srt tms"
  have l: "length (content h tms) = len srt" using content_length[OF assms(1)] s by simp
  have h2: "?h2 = store h1 srt (content h tms)"
    using l by (simp add: go_copy_def c1 s)
  have c2: "content ?h2 srt = content h tms" "valid_slice ?h2 srt"
    unfolding h2 using content_store[OF v1, of "content h tms"] l by simp_all
  show "content (sort_Float64s ?h2 srt) srt = sort (content h tms)"
    "valid_slice (sort_Float64s ?h2 srt) srt"
    unfolding sort_Float64s_def using content_store[OF c2(2), of "sort (content ?h2 srt)"] c2(1) l
    by simp_all
  show "len srt = len tms" by (rule s)
qed

lemma content_set_at:
  assumes "valid_slice h s" "i < len s"
  shows "content (set_at h s i v) s = (content h s)[i := v]" "valid_slice (set_at h s i v) s"
proof -
  have b: "base s < length h" using assms(1) by (simp add: valid_slice_def)
  show "content (set_at h s i v) s = (content h s)[i := v]"
    using b by (simp add: content_def set_at_def drop_update_swap take_update_swap)
  show "valid_slice (set_at h s i v) s"
    using assms(1) by (simp add: valid_slice_def set_at_def)
qed

lemma set_at_other: "a \<noteq> base s \<Longrightarrow> set_at h s i v ! a = h ! a"
  by (simp add: set_at_def)

lemma length_set_at: "length (set_at h s i v) = length h"
  by (simp add: set_at_def)

lemma deviations_upto:
  assumes "valid_slice h dev" "valid_slice h srt" "base dev \<noteq> base srt" "len dev = len srt"
    and "n \<le> len srt"
  shows "valid_slice (fold (\<lambda>i h. set_at h dev i \<bar>get h srt i - median\<bar>) [0 ..< n] h) dev
       \<and> fold (\<lambda>i h. set_at h dev i \<bar>get h srt i - median\<bar>) [0 ..< n] h ! base srt = h ! base srt
       \<and> take n (content (fold (\<lambda>i h. set_at h dev i \<bar>get h srt i - median\<bar>) [0 ..< n] h) dev)
           = map (\<lambda>v. \<bar>v - median\<bar>) (take n (content h srt))"
  using assms(5)
proof (induction n)
  case 0
  then show ?case using assms(1) by simp
next
  case (Suc n)
  let ?g = "fold (\<lambda>i h. set_at h dev i \<bar>get h srt i - median\<bar>) [0 ..< n] h"
  have IH: "valid_slice ?g dev" "?g ! base srt = h ! base srt"
    "take n (content ?g dev) = map (\<lambda>v. \<bar>v - median\<bar>) (take n (content h srt))"
    using Suc by simp_all
  have n: "n < len srt" "n < len dev" using Suc.prems assms(4) by simp_all
  have gs: "get ?g srt n = content h srt ! n"
    using get_content[OF assms(2) n(1)] IH(2) by (simp add: get_def)
  let ?v = "\<bar>content h srt ! n - median\<bar>"
  have step: "fold (\<lambda>i h. set_at h dev i \<bar>get h srt i - median\<bar>) [0 ..< Suc n] h = set_at ?g dev n ?v"
    by (simp add: gs)
  have c: "content (set_at ?g dev n ?v) dev = (content ?g dev)[n := ?v]"
    "valid_slice (set_at ?g dev n ?v) dev"
    using content_set_at[OF IH(1) n(2)] by simp_all
  have ld: "n < length (content ?g dev)" using content_length[OF IH(1)] n(2) by simp
  have ls: "n < length (content h srt)" using content_length[OF assms(2)] n(1) by simp
  have "take (Suc n) ((content ?g dev)[n := ?v]) = take n (content ?g dev) @ [?v]"
    using ld by (simp add: take_Suc_conv_app_nth)
  also have "\<dots> = map (\<lambda>v. \<bar>v - median\<bar>) (take (Suc n) (content h srt))"
    using IH(3) ls by (simp add: take_Suc_conv_app_nth)
  finally have t: "take (Suc n) (content (set_at ?g dev n ?v) dev)
      = map (\<lambda>v. \<bar>v - median\<bar>) (take (Suc n) (content h srt))"
    using c(1) by simp
  have o: "set_at ?g dev n ?v ! base srt = h ! base srt"
    using set_at_other[of "base srt" dev ?g n ?v] assms(3) IH(2) by simp
  show ?case unfolding step using c(2) o t by simp
qed

lemma deviations_content:
  assumes "valid_slice h dev" "valid_slice h srt" "base dev \<noteq> base srt" "len dev = len srt"
  shows "content (h_deviations h dev srt median) dev = map (\<lambda>v. \<bar>v - median\<bar>) (content h srt)"
    and "valid_slice (h_deviations h dev srt median) dev"
    and "content (h_deviations h dev srt median) srt = content h srt"
proof -
  let ?g = "h_deviations h dev srt median"
  have d: "valid_slice ?g dev" "?g ! base srt = h ! base srt"
    "take (len srt) (content ?g dev) = map (\<lambda>v. \<bar>v - median\<bar>) (take (len srt) (content h srt))"
    using deviations_upto[OF assms, of "len srt" median] by (simp_all add: h_deviations_def)
  show "valid_slice ?g dev" by (rule d(1))
  show "content ?g srt = content h srt" using d(2) by (simp add: content_def)
  show "content ?g dev = map (\<lambda>v. \<bar>v - median\<bar>) (content h srt)"
    using d(3) content_length[OF d(1)] content_length[OF assms(2)] assms(4) by simp
qed

lemma append_content:
  assumes "fresh hb cl" "cap cl > 0 \<longrightarrow> valid_slice h cl" "go_append grow h cl v = (h', cl')"
  shows "content h' cl' = content h cl @ [v]" "valid_slice h' cl'"
proof -
  have lc: "length (content h cl) = len cl"
  proof (cases "cap cl > 0")
    case True
    then show ?thesis using assms(2) content_length by simp
  next
    case False
    then have "len cl = 0" using assms(1) by (simp add: fresh_def)
    then show ?thesis by (simp add: content_def)
  qed
  show "content h' cl' = content h cl @ [v]"
  proof (cases "len cl < cap cl")
    case True
    then have v: "valid_slice h cl" using assms(2) by simp
    then have b: "base cl < length h" and o: "off cl + cap cl \<le> length (h ! base cl)"
      by (simp_all add: valid_slice_def)
    have l: "len cl < length (drop (off cl) (h ! base cl))" using o True by simp
    have "h' = set_at h cl (len cl) v" "cl' = cl\<lparr>len := len cl + 1\<rparr>"
      using assms(3) True by (simp_all add: go_append_def)
    then show ?thesis
      using b l by (simp add: content_def set_at_def drop_update_swap take_Suc_conv_app_nth)
  next
    case False
    then show ?thesis using assms(3) lc by (auto simp: go_append_def Let_def content_def)
  qed
  show "valid_slice h' cl'"
  proof (cases "len cl < cap cl")
    case True
    then show ?thesis using assms(2,3) by (auto simp: go_append_def valid_slice_def set_at_def)
  next
    case False
    then show ?thesis using assms(3) lc by (auto simp: go_append_def Let_def valid_slice_def)
  qed
qed

lemma keep_step_refines:
  assumes "valid_slice hb src" "frame hb h" "fresh hb cl" "cap cl > 0 \<longrightarrow> valid_slice h cl"
    and "i < len src" "h_keep_step grow keep src i (h, cl, k) = (h', cl', k')"
  shows "frame hb h'" "fresh hb cl'" "cap cl' > 0 \<longrightarrow> valid_slice h' cl'"
    "content h' cl' = content h cl @ filter keep [content hb src ! i]"
    "k' = k + int (length (filter (\<lambda>v. \<not> keep v) [content hb src ! i]))"
proof -
  have gv: "get h src i = content hb src ! i"
    using get_content[OF frame_valid[OF assms(2,1)] assms(5)]
      frame_content[OF assms(2), of src] assms(1) by (simp add: valid_slice_def)
  show "frame hb h'" "fresh hb cl'" using frame_keep_step[OF assms(2,3,6)] by simp_all
  have "(cap cl' > 0 \<longrightarrow> valid_slice h' cl')
      \<and> content h' cl' = content h cl @ filter keep [content hb src ! i]
      \<and> k' = k + int (length (filter (\<lambda>v. \<not> keep v) [content hb src ! i]))"
  proof (cases "keep (content hb src ! i)")
    case False
    then have "(h', cl', k') = (h, cl, k + 1)"
      using assms(6) gv by (simp add: h_keep_step_def)
    then show ?thesis using assms(4) False by simp
  next
    case True
    obtain h2 cl2 where a: "go_append grow h cl (content hb src ! i) = (h2, cl2)"
      by (cases "go_append grow h cl (content hb src ! i)")
    have e: "(h', cl', k') = (h2, cl2, k)"
      using assms(6) gv True a by (simp add: h_keep_step_def)
    have "content h2 cl2 = content h cl @ [content hb src ! i]" "valid_slice h2 cl2"
      using append_content[OF assms(3,4) a] by simp_all
    then show ?thesis using e True by simp
  qed
  then show "cap cl' > 0 \<longrightarrow> valid_slice h' cl'"
    "content h' cl' = content h cl @ filter keep [content hb src ! i]"
    "k' = k + int (length (filter (\<lambda>v. \<not> keep v) [content hb src ! i]))"
    by simp_all
qed

lemma keep_or_count_upto:
  assumes "valid_slice hb src" "frame hb h1" "fresh hb cl0" "cap cl0 > 0 \<longrightarrow> valid_slice h1 cl0"
    and "n \<le> len src"
  shows "\<exists>h' cl' n'. fold (h_keep_step grow keep src) [0 ..< n] (h1, cl0, n0) = (h', cl', n')
            \<and> frame hb h' \<and> fresh hb cl' \<and> (cap cl' > 0 \<longrightarrow> valid_slice h' cl')
            \<and> content h' cl' = content h1 cl0 @ filter keep (take n (content hb src))
            \<and> n' = n0 + int (length (filter (\<lambda>v. \<not> keep v) (take n (content hb src))))"
  using assms(5)
proof (induction n)
  case 0
  then show ?case using assms(2,3,4) by simp
next
  case (Suc n)
  then obtain h cl k where g: "fold (h_keep_step grow keep src) [0 ..< n] (h1, cl0, n0) = (h, cl, k)"
    and IH: "frame hb h" "fresh hb cl" "cap cl > 0 \<longrightarrow> valid_slice h cl"
      "content h cl = content h1 cl0 @ filter keep (take n (content hb src))"
      "k = n0 + int (length (filter (\<lambda>v. \<not> keep v) (take n (content hb src))))"
    by auto
  have n: "n < len src" using Suc.prems by simp
  have ls: "n < length (content hb src)" using content_length[OF assms(1)] n by simp
  have tk: "take (Suc n) (content hb src) = take n (content hb src) @ [content hb src ! n]"
    using ls by (simp add: take_Suc_conv_app_nth)
  obtain h' cl' k' where s: "h_keep_step grow keep src n (h, cl, k) = (h', cl', k')"
    by (metis prod_cases3)
  have step: "fold (h_keep_step grow keep src) [0 ..< Suc n] (h1, cl0, n0) = (h', cl', k')"
    using g s by simp
  note r = keep_step_refines[OF assms(1) IH(1,2,3) n s]
  have c: "content h' cl' = content h1 cl0 @ filter keep (take (Suc n) (content hb src))"
    unfolding tk using r(4) IH(4) by simp
  have k: "k' = n0 + int (length (filter (\<lambda>v. \<not> keep v) (take (Suc n) (content hb src))))"
    unfolding tk using r(5) IH(5) by simp
  show ?case
    using step r(1,2,3) c k by (intro exI[of _ h'] exI[of _ cl'] exI[of _ k']) simp
qed

lemma h_keep_or_count_refines:
  assumes "valid_slice hb src" "frame hb h1" "fresh hb cl0" "cap cl0 > 0 \<longrightarrow> valid_slice h1 cl0"
    and "content h1 cl0 = []"
    and "h_keep_or_count grow keep src (h1, cl0, 0) = (h', cl', n')"
  shows "frame hb h'" "fresh hb cl'" "cap cl' > 0 \<longrightarrow> valid_slice h' cl'"
    "(content h' cl', n') = keep_or_count keep (content hb src)"
proof -
  from keep_or_count_upto[OF assms(1-4), where n = "len src" and ?n0.0 = 0 and keep = keep and grow = grow]
  obtain h2 cl2 n2 where f: "fold (h_keep_step grow keep src) [0 ..< len src] (h1, cl0, 0) = (h2, cl2, n2)"
    and p: "frame hb h2" "fresh hb cl2" "cap cl2 > 0 \<longrightarrow> valid_slice h2 cl2"
      "content h2 cl2 = content h1 cl0 @ filter keep (take (len src) (content hb src))"
      "n2 = 0 + int (length (filter (\<lambda>v. \<not> keep v) (take (len src) (content hb src))))"
    by auto
  have e: "h' = h2" "cl' = cl2" "n' = n2" using f assms(6) by (simp_all add: h_keep_or_count_def)
  show "frame hb h'" "fresh hb cl'" "cap cl' > 0 \<longrightarrow> valid_slice h' cl'"
    using p(1,2,3) e by simp_all
  show "(content h' cl', n') = keep_or_count keep (content hb src)"
    using p(4,5) e assms(5) content_length[OF assms(1)] by (simp add: keep_or_count_filter)
qed

lemma length_store: "length (store h s vs) = length h"
  by (simp add: store_def)

lemma store_other: "a \<noteq> base s \<Longrightarrow> store h s vs ! a = h ! a"
  by (simp add: store_def)

lemma valid_slice_same:
  "valid_slice h s \<Longrightarrow> length h \<le> length h' \<Longrightarrow> h' ! base s = h ! base s \<Longrightarrow> valid_slice h' s"
  by (simp add: valid_slice_def)

lemma content_same: "h' ! base s = h ! base s \<Longrightarrow> content h' s = content h s"
  by (simp add: content_def)

lemma removeOutliersIQR_refines:
  assumes "valid_slice h srt" "h_removeOutliersIQR grow c h srt = (h', cl', n')"
  shows "(content h' cl', n') = removeOutliersIQR c (content h srt)"
proof -
  obtain h1 cleaned where m: "go_make h 0 (len srt) = (h1, cleaned)" by (cases "go_make h 0 (len srt)")
  have f1: "frame h h1" "fresh h cleaned" "valid_slice h1 cleaned" "content h1 cleaned = []"
    using m by (auto simp: go_make_def frame_def fresh_def valid_slice_def content_def)
  let ?keep = "\<lambda>v. v \<ge> percentile (content h srt) (25 / 100)
                      - OutlierThreshold c * (percentile (content h srt) (75 / 100) - percentile (content h srt) (25 / 100))
                  \<and> v \<le> percentile (content h srt) (75 / 100)
                      + OutlierThreshold c * (percentile (content h srt) (75 / 100) - percentile (content h srt) (25 / 100))"
  have k: "h_keep_or_count grow ?keep srt (h1, cleaned, 0) = (h', cl', n')"
    using assms(2) m by (simp add: h_removeOutliersIQR_def Let_def)
  have "(content h' cl', n') = keep_or_count ?keep (content h srt)"
    using h_keep_or_count_refines(4)[OF assms(1) f1(1,2) _ f1(4) k] f1(3) by simp
  then show ?thesis by (simp add: removeOutliersIQR_def Let_def)
qed

lemma trim_refines:
  assumes "cap cl > 0 \<longrightarrow> valid_slice h cl" "len cl \<le> cap cl" "h_trim c (h, cl, n) = (h', cl', n')"
  shows "(content h' cl', n') = trim c (content h cl, n)"
proof -
  have lc: "length (content h cl) = len cl"
  proof (cases "cap cl > 0")
    case True
    then show ?thesis using assms(1) content_length by simp
  next
    case False
    then show ?thesis using assms(2) by (simp add: content_def)
  qed
  let ?t = "go_int (real (len cl) * TrimPercent c)"
  show ?thesis
  proof (cases "TrimPercent c > 0 \<and> len cl > 10 \<and> ?t > 0")
    case False
    then have "(h', cl', n') = (h, cl, n)"
      using assms(3) by (auto simp: h_trim_def Let_def split: if_splits)
    then show ?thesis using False lc by (auto simp: trim_def Let_def)
  next
    case True
    then have v: "valid_slice h cl" using assms(1,2) by auto
    have e: "h' = sort_Float64s h cl" "cl' = reslice cl (nat ?t) (len cl - nat ?t)" "n' = n + ?t * 2"
      using assms(3) True by (simp_all add: h_trim_def Let_def)
    have s: "content h' cl = sort (content h cl)"
      unfolding e(1) sort_Float64s_def using content_store(1)[OF v, of "sort (content h cl)"] lc
      by simp
    have "content h' cl' = take (len cl - nat ?t - nat ?t) (drop (nat ?t) (drop (off cl) (h' ! base cl)))"
      by (simp add: content_def e(2) reslice_def add.commute)
    also have "\<dots> = take (len cl - nat ?t - nat ?t) (take (len cl - nat ?t) (drop (nat ?t) (drop (off cl) (h' ! base cl))))"
      by (simp add: min_def)
    also have "\<dots> = take (len cl - nat ?t - nat ?t) (drop (nat ?t) (content h' cl))"
      by (simp add: content_def drop_take)
    finally have "content h' cl' = take (len cl - 2 * nat ?t) (drop (nat ?t) (sort (content h cl)))"
      using s by (simp add: mult_2 diff_diff_left)
    then show ?thesis using True e(3) lc by (simp add: trim_def Let_def)
  qed
qed

lemma removeOutliers_refines:
  assumes "valid_slice h tms" "h_removeOutliers grow c h tms = (h', cl', n')"
  shows "(content h' cl', n') = removeOutliers c (content h tms)"
proof (cases "len tms \<le> 3")
  case True
  then show ?thesis
    using assms content_length[OF assms(1)]
    by (auto simp: h_removeOutliers_def removeOutliers_def)
next
  case False
  have lt: "\<not> length (content h tms) \<le> 3" using False content_length[OF assms(1)] by simp
  obtain h1 srt where m1: "go_make h (len tms) (len tms) = (h1, srt)"
    by (cases "go_make h (len tms) (len tms)")
  define h3 where "h3 = sort_Float64s (go_copy h1 srt tms) srt"
  have s3: "content h3 srt = sort (content h tms)" "valid_slice h3 srt" "len srt = len tms"
    unfolding h3_def using sorted_copy[OF assms(1) m1] by simp_all
  have f3: "frame h h3"
    using frame_make[OF frame_refl m1]
    unfolding h3_def sort_Float64s_def go_copy_def by (simp add: frame_store)
  show ?thesis
  proof (cases "UseMedianAbsolute c")
    case iqr: False
    then have "h_removeOutliersIQR grow c h3 srt = (h', cl', n')"
      using assms(2) False m1 by (simp add: h_removeOutliers_def Let_def h3_def)
    from removeOutliersIQR_refines[OF s3(2) this] show ?thesis
      using iqr lt s3(1) by (simp add: removeOutliers_def Let_def)
  next
    case mad: True
    define median where "median = percentile (content h3 srt) (1 / 2)"
    have med: "median = mad_median (sort (content h tms))"
      by (simp add: median_def mad_median_def s3(1))
    obtain h4 dev where m4: "go_make h3 (len srt) (len srt) = (h4, dev)"
      by (cases "go_make h3 (len srt) (len srt)")
    have d4: "valid_slice h4 dev" "len dev = len srt" "base dev = length h3" "frame h3 h4"
      using m4 by (auto simp: go_make_def valid_slice_def frame_def)
    have s4: "valid_slice h4 srt" "content h4 srt = content h3 srt"
      using frame_valid[OF d4(4) s3(2)] frame_content[OF d4(4), of srt] s3(2)
      by (simp_all add: valid_slice_def)
    have ne: "base dev \<noteq> base srt" using d4(3) s3(2) by (simp add: valid_slice_def)
    define h5 where "h5 = h_deviations h4 dev srt median"
    have d5: "content h5 dev = map (\<lambda>v. \<bar>v - median\<bar>) (content h4 srt)" "valid_slice h5 dev"
      "content h5 srt = content h4 srt"
      unfolding h5_def using deviations_content[OF d4(1) s4(1) ne d4(2)] by simp_all
    have l5: "length h5 = length h4"
      unfolding h5_def h_deviations_def by (rule fold_invariant) (simp_all add: length_set_at)
    have n5: "h5 ! base srt = h4 ! base srt"
      using deviations_upto[OF d4(1) s4(1) ne d4(2), of "len srt" median]
      by (simp add: h5_def h_deviations_def)
    define h6 where "h6 = sort_Float64s h5 dev"
    have ld: "length (content h5 dev) = len dev" using content_length[OF d5(2)] .
    have d6: "content h6 dev = sort (map (\<lambda>v. \<bar>v - median\<bar>) (sort (content h tms)))"
      unfolding h6_def sort_Float64s_def
      using content_store(1)[OF d5(2), of "sort (content h5 dev)"] ld d5(1) s4(2) s3(1) by simp
    have n6: "h6 ! base srt = h4 ! base srt" "length h6 = length h4"
      unfolding h6_def sort_Float64s_def using store_other[of "base srt" dev] ne n5 l5
      by (simp_all add: length_store)
    have s6: "valid_slice h6 srt" "content h6 srt = sort (content h tms)"
      using valid_slice_same[OF s4(1), of h6] content_same[of h6 srt h4] n6 s4(2) s3(1)
      by simp_all
    have bd: "length h \<le> base dev" using d4(3) f3 by (simp add: frame_def)
    have f5: "frame h h5"
      unfolding h5_def using frame_deviations[OF frame_trans[OF f3 d4(4)] bd] .
    have f6: "frame h h6"
      unfolding h6_def sort_Float64s_def using frame_store[OF f5 bd] .
    define madv where "madv = percentile (content h6 dev) (1 / 2)"
    have madv: "madv = mad_value (sort (content h tms))"
      by (simp add: madv_def mad_value_def Let_def d6 med)
    have unfold: "h_removeOutliers grow c h tms =
        (if madv = 0 then h_removeOutliersIQR grow c h6 srt
         else h_trim c (h_keep_or_count grow
                          (\<lambda>v. \<bar>modifiedZScore median madv v\<bar> \<le> 35 / 10) tms (h6, nil_slice, 0)))"
      using False mad m1 m4
      by (simp add: h_removeOutliers_def Let_def h3_def[symmetric] median_def[symmetric]
            h5_def[symmetric] h6_def[symmetric] madv_def[symmetric])
    show ?thesis
    proof (cases "madv = 0")
      case True
      then have "h_removeOutliersIQR grow c h6 srt = (h', cl', n')"
        using assms(2) unfold by simp
      from removeOutliersIQR_refines[OF s6(1) this] show ?thesis
        using True mad lt s6(2) madv by (simp add: removeOutliers_def Let_def)
    next
      case nz: False
      let ?keep = "\<lambda>v. \<bar>modifiedZScore median madv v\<bar> \<le> 35 / 10"
      obtain h7 cl n where k: "h_keep_or_count grow ?keep tms (h6, nil_slice, 0) = (h7, cl, n)"
        by (metis prod_cases3)
      have t: "h_trim c (h7, cl, n) = (h', cl', n')" using assms(2) unfold nz k by simp
      have v6: "valid_slice h6 tms" using frame_valid[OF f6 assms(1)] .
      have c6: "content h6 tms = content h tms"
        using frame_content[OF f6, of tms] assms(1) by (simp add: valid_slice_def)
      have nil: "fresh h6 nil_slice" "cap nil_slice > 0 \<longrightarrow> valid_slice h6 nil_slice"
        "content h6 nil_slice = []"
        by (simp_all add: fresh_def nil_slice_def content_def)
      note r = h_keep_or_count_refines[OF v6 frame_refl nil k]
      have "(content h' cl', n') = trim c (content h7 cl, n)"
        using trim_refines[OF r(3) _ t] r(2) by (simp add: fresh_def)
      then show ?thesis
        using r(4) c6 nz mad lt madv med by (simp add: removeOutliers_def Let_def)
    qed
  qed
qed

lemma fold_nth:
  "fold (\<lambda>i s. f (xs ! i) s) [0 ..< length xs] a = fold f xs a"
proof (induction xs arbitrary: a rule: rev_induct)
  case Nil
  then show ?case by simp
next
  case (snoc x xs)
  have "fold (\<lambda>i s. f ((xs @ [x]) ! i) s) [0 ..< length xs] a
          = fold (\<lambda>i s. f (xs ! i) s) [0 ..< length xs] a"
    by (rule fold_cong) (simp_all add: nth_append)
  then show ?case using snoc by simp
qed

lemma calculateStatistics_refines:
  assumes "valid_slice h tms"
  shows "snd (h_calculateStatistics h tms) = calculateStatistics (content h tms)"
proof (cases "len tms = 0")
  case True
  then show ?thesis
    using content_length[OF assms] by (simp add: h_calculateStatistics_def calculateStatistics_def)
next
  case False
  have l: "length (content h tms) = len tms" using content_length[OF assms] .
  obtain h1 srt where m1: "go_make h (len tms) (len tms) = (h1, srt)"
    by (cases "go_make h (len tms) (len tms)")
  define h3 where "h3 = sort_Float64s (go_copy h1 srt tms) srt"
  have s3: "content h3 srt = sort (content h tms)" "valid_slice h3 srt" "len srt = len tms"
    unfolding h3_def using sorted_copy[OF assms m1] by simp_all
  have f3: "frame h h3"
    using frame_make[OF frame_refl m1]
    unfolding h3_def sort_Float64s_def go_copy_def by (simp add: frame_store)
  have v3: "valid_slice h3 tms" using frame_valid[OF f3 assms] .
  have c3: "content h3 tms = content h tms"
    using frame_content[OF f3, of tms] assms by (simp add: valid_slice_def)
  have g: "get h3 tms i = content h tms ! i" if "i < len tms" for i
    using get_content[OF v3 that] c3 by simp
  have gs: "get h3 srt 0 = sort (content h tms) ! 0"
    "get h3 srt (len srt - Suc 0) = sort (content h tms) ! (len tms - Suc 0)"
    using get_content[OF s3(2), of 0] get_content[OF s3(2), of "len srt - Suc 0"] s3(1,3) False
    by simp_all
  have sum: "fold (\<lambda>i sum. sum + get h3 tms i) [0 ..< len tms] 0
               = fold (\<lambda>v sum. sum + v) (content h tms) 0"
  proof -
    have "fold (\<lambda>i sum. sum + get h3 tms i) [0 ..< len tms] 0
            = fold (\<lambda>i sum. sum + content h tms ! i) [0 ..< length (content h tms)] 0"
      unfolding l by (rule fold_cong) (simp_all add: g)
    then show ?thesis using fold_nth[of "\<lambda>v sum. sum + v" "content h tms" 0] by simp
  qed
  have sq: "fold (\<lambda>i s. s + (get h3 tms i - m) * (get h3 tms i - m)) [0 ..< len tms] 0
               = fold (\<lambda>v s. s + (v - m) * (v - m)) (content h tms) 0" for m
  proof -
    have "fold (\<lambda>i s. s + (get h3 tms i - m) * (get h3 tms i - m)) [0 ..< len tms] 0
            = fold (\<lambda>i s. s + (content h tms ! i - m) * (content h tms ! i - m))
                [0 ..< length (content h tms)] 0"
      unfolding l by (rule fold_cong) (simp_all add: g)
    then show ?thesis
      using fold_nth[of "\<lambda>v s. s + (v - m) * (v - m)" "content h tms" 0] by simp
  qed
  show ?thesis
    using False m1 l
    by (simp add: h_calculateStatistics_def calculateStatistics_def Let_def h3_def[symmetric]
          s3(1) gs sum sq)
qed

text \<open>
  C10. \<open>removeOutliers\<close> and \<open>calculateStatistics\<close> leave the slice they are given
  unchanged, the same elements in the same order: every array that existed before the call
  is unchanged after it, since all their writes (the copies, the sorts, the appends) go to
  arrays allocated during the call.
\<close>

theorem input_slice_unchanged:
  assumes "valid_slice h tms"
  shows "frame h (fst (h_removeOutliers grow c h tms))
         \<and> content (fst (h_removeOutliers grow c h tms)) tms = content h tms
         \<and> frame h (fst (h_calculateStatistics h tms))
         \<and> content (fst (h_calculateStatistics h tms)) tms = content h tms"
proof -
  have b: "base tms < length h" using assms by (simp add: valid_slice_def)
  show ?thesis
    using frame_removeOutliers[of h grow c tms] frame_calculateStatistics[of h tms]
      frame_content[OF _ b] by simp
qed

theorem input_slice_unchanged_witness:
  "valid_slice heapA sliceA
   \<and> content (fst (h_removeOutliers doubling DefaultConfig heapA sliceA)) sliceA
       = [7, 5, 100, 6, 5, 6, 7, 6]
   \<and> content (fst (h_calculateStatistics heapA sliceA)) sliceA = [7, 5, 100, 6, 5, 6, 7, 6]"
proof -
  have v: "valid_slice heapA sliceA" by (simp add: valid_slice_def heapA_def sliceA_def)
  have c: "content heapA sliceA = [7, 5, 100, 6, 5, 6, 7, 6]"
    by (simp add: content_def heapA_def sliceA_def)
  show ?thesis using input_slice_unchanged[OF v, of doubling DefaultConfig] v c by simp
qed

end
